theory Spec2Isabelle
  imports Complex_Main
begin

section \<open>RealtimeTenVad: the streaming segmentation state machine of index.js\<close>

text \<open>
  The class \<^verbatim>\<open>RealtimeTenVad\<close> is modelled as a record holding the tunables and the
  internal state, and every method as a function from the instance to the updated instance.

  \<^item> JavaScript numbers and the Float32 samples are modelled as exact reals: IEEE rounding,
    NaN and the infinities are outside the model. Counters are naturals, the post-pad
    countdown (which the code lets run below zero) is an integer.
  \<^item> The three callbacks are the only observable effects. Each is invoked inside
    \<^verbatim>\<open>try { ... } catch (_) { }\<close>, so a callback cannot change the control flow; the model
    appends the invocation to the field \<open>emitted\<close>, the log of callbacks in call order.
  \<^item> The WASM classifier is an external collaborator. Its call
    \<^verbatim>\<open>_ten_vad_process(handle, audioPtr, HOP_SIZE, probPtr, flagPtr)\<close> is a parameter \<open>tvp\<close> of the
    model: a function from the module's internal state and the Int16 frame to the new
    internal state, the return code, the probability and the flag.
  \<^item> Frames are \<^verbatim>\<open>subarray\<close> views on a buffer that \<^verbatim>\<open>processAudio\<close> allocates afresh and never
    writes again, or fresh arrays of \<^verbatim>\<open>flush\<close>; no view is ever written through, so a
    frame is modelled by its value, a list of samples.
  \<^item> \<^verbatim>\<open>processAudio\<close> throws on an argument that is not a Float32Array; the model's chunk type
    admits only sample lists. An instance is obtained from the factory \<^verbatim>\<open>RealtimeTenVad.new\<close>,
    so its module is loaded; loading the module and \<^verbatim>\<open>destroy\<close> are outside the model, and so
    are the scratch buffers of the classifier call, which are written anew for every frame.
\<close>

subsection \<open>Constants and data\<close>

definition SAMPLE_RATE :: nat where
  "SAMPLE_RATE = 16000"

definition HOP_SIZE :: nat where
  "HOP_SIZE = 256"

type_synonym frame = "real list"

datatype event = SpeechStart | SpeechEnd "real list" | VADMisfire

text \<open>The options object: an absent (undefined or null) entry is \<open>None\<close>.\<close>

record opts =
  o_positiveSpeechThreshold :: "real option"
  o_negativeSpeechThreshold :: "real option"
  o_minSpeechFrames :: "real option"
  o_minSilenceFrames :: "real option"
  o_probSmoothing :: "real option"
  o_energyGateDb :: "real option"
  o_preEmphasis :: "real option"
  o_preSpeechPadMs :: "real option"
  o_postSpeechPadMs :: "real option"
  o_minSpeechMs :: "real option"

record 'm vad =
  positiveSpeechThreshold :: real
  negativeSpeechThreshold :: real
  minSpeechFrames :: real
  minSilenceFrames :: real
  probSmoothing :: real
  energyGateDb :: "real option"
  preEmphasis :: real
  preSpeechPadMs :: real
  postSpeechPadMs :: real
  minSpeechMs :: real
  module :: 'm
  floatBuf :: "real list"
  lastSampleForPreEmph :: real
  pSmoothed :: real
  frameIndex :: nat
  inSpeech :: bool
  voiceRun :: nat
  silenceRun :: nat
  prePadFrames :: int
  postPadFrames :: int
  ring :: "frame list"
  ringMax :: int
  currentSegment :: "frame list"
  postPadCountdown :: int
  emitted :: "event list"

type_synonym 'm ten_vad_process = "'m \<Rightarrow> int list \<Rightarrow> 'm \<times> int \<times> real \<times> int"

subsection \<open>Numeric helpers of the host language\<close>

text \<open>\<^verbatim>\<open>opts.x ?? d\<close>\<close>

definition nullish :: "real option \<Rightarrow> real \<Rightarrow> real" where
  "nullish x d = (case x of None \<Rightarrow> d | Some y \<Rightarrow> y)"

text \<open>\<^verbatim>\<open>Math.round\<close>: the nearest integer, a tie going up.\<close>

definition js_round :: "real \<Rightarrow> int" where
  "js_round x = \<lfloor>x + 1 / 2\<rfloor>"

text \<open>\<^verbatim>\<open>x | 0\<close>: truncation toward zero, then wrap-around to a signed 32-bit integer.\<close>

definition to_int32 :: "real \<Rightarrow> int" where
  "to_int32 x = ((if x < 0 then \<lceil>x\<rceil> else \<lfloor>x\<rfloor>) + 2 ^ 31) mod 2 ^ 32 - 2 ^ 31"

text \<open>A store into an Int16Array wraps to a signed 16-bit integer.\<close>

definition to_int16 :: "int \<Rightarrow> int" where
  "to_int16 n = (n + 2 ^ 15) mod 2 ^ 16 - 2 ^ 15"

text \<open>\<^verbatim>\<open>typed.subarray(start, end)\<close> and \<^verbatim>\<open>typed.subarray(start)\<close>.\<close>

definition subarray :: "'a list \<Rightarrow> nat \<Rightarrow> nat \<Rightarrow> 'a list" where
  "subarray xs start end' = take (end' - start) (drop start xs)"

definition subarray_from :: "'a list \<Rightarrow> nat \<Rightarrow> 'a list" where
  "subarray_from xs start = drop start xs"

text \<open>
  \<^verbatim>\<open>out.set(f, off)\<close> copies \<open>f\<close> into \<open>out\<close> from index \<open>off\<close>. The host raises a RangeError
  when \<open>off + length f\<close> exceeds \<open>length out\<close>. Every call of the program is in range, where
  the copy is this: the frames of a segment are \<open>HOP_SIZE\<close> long (lemmas \<open>concatFrames_concat\<close>
  and \<open>reachable_built_from\<close> below), and fewer than \<open>HOP_SIZE\<close> samples are left over
  (lemma \<open>reachable_floatBuf\<close>).
\<close>

definition set_at :: "'a list \<Rightarrow> 'a list \<Rightarrow> nat \<Rightarrow> 'a list" where
  "set_at out f off = take off out @ f @ drop (off + length f) out"

subsection \<open>Construction\<close>

definition vad_constructor :: "opts \<Rightarrow> 'm \<Rightarrow> 'm vad" where
  "vad_constructor opts m =
    (let pos0 = min 1 (max 0 (nullish (o_positiveSpeechThreshold opts) (6 / 10)));
         neg0 = min 1 (max 0 (nullish (o_negativeSpeechThreshold opts) (4 / 10)));
         pos = (if neg0 > pos0 then neg0 else pos0);
         neg = (if neg0 > pos0 then pos0 else neg0);
         preMs = nullish (o_preSpeechPadMs opts) 80;
         postMs = nullish (o_postSpeechPadMs opts) 160;
         prePad = js_round ((preMs / 1000) * real SAMPLE_RATE / real HOP_SIZE);
         postPad = js_round ((postMs / 1000) * real SAMPLE_RATE / real HOP_SIZE)
     in \<lparr> positiveSpeechThreshold = pos,
          negativeSpeechThreshold = neg,
          minSpeechFrames = nullish (o_minSpeechFrames opts) 3,
          minSilenceFrames = nullish (o_minSilenceFrames opts) 8,
          probSmoothing = min 1 (max 0 (nullish (o_probSmoothing opts) (2 / 10))),
          energyGateDb = o_energyGateDb opts,
          preEmphasis = nullish (o_preEmphasis opts) 0,
          preSpeechPadMs = preMs,
          postSpeechPadMs = postMs,
          minSpeechMs = nullish (o_minSpeechMs opts) 150,
          module = m,
          floatBuf = [],
          lastSampleForPreEmph = 0,
          pSmoothed = 0,
          frameIndex = 0,
          inSpeech = False,
          voiceRun = 0,
          silenceRun = 0,
          prePadFrames = prePad,
          postPadFrames = postPad,
          ring = [],
          ringMax = max 0 prePad,
          currentSegment = [],
          postPadCountdown = 0,
          emitted = [] \<rparr>)"

definition default_opts :: opts where
  "default_opts = \<lparr> o_positiveSpeechThreshold = None, o_negativeSpeechThreshold = None,
     o_minSpeechFrames = None, o_minSilenceFrames = None, o_probSmoothing = None,
     o_energyGateDb = None, o_preEmphasis = None, o_preSpeechPadMs = None,
     o_postSpeechPadMs = None, o_minSpeechMs = None \<rparr>"

subsection \<open>Segment concatenation\<close>

fun concat_loop :: "frame list \<Rightarrow> real list \<Rightarrow> nat \<Rightarrow> real list" where
  "concat_loop [] out off = out"
| "concat_loop (f # fs) out off = concat_loop fs (set_at out f off) (off + length f)"

definition concatFrames :: "frame list \<Rightarrow> real list" where
  "concatFrames frames = concat_loop frames (replicate (length frames * HOP_SIZE) 0) 0"

subsection \<open>The state machine\<close>

text \<open>
  \<^verbatim>\<open>_advanceState\<close> is written as its blocks, in the order of the source: the ring buffer
  update, then the voice branch or the non-voice branch, then the frame index. The
  statements that close a segment (concatenate, compute the duration, leave speech, clear
  the segment and the countdown, invoke \<^verbatim>\<open>onVADMisfire\<close> or \<^verbatim>\<open>onSpeechEnd\<close>) stand twice in
  the source with the same text, in \<^verbatim>\<open>_advanceState\<close> and in \<^verbatim>\<open>_finalizeWithFrame\<close>; they are
  \<open>close_segment\<close> here.
\<close>

definition push_ring :: "'m vad \<Rightarrow> frame \<Rightarrow> 'm vad" where
  "push_ring v frameRaw =
    (if ringMax v > 0
     then v\<lparr>ring := (if int (length (ring v)) \<ge> ringMax v then tl (ring v) else ring v)
                       @ [frameRaw]\<rparr>
     else v)"

definition close_segment :: "'m vad \<Rightarrow> 'm vad" where
  "close_segment c =
    (let seg = concatFrames (currentSegment c);
         durMs = js_round (real (length seg) / real SAMPLE_RATE * 1000);
         d = c\<lparr>inSpeech := False, currentSegment := [], postPadCountdown := 0\<rparr>
     in if real_of_int durMs < minSpeechMs d
        then d\<lparr>emitted := emitted d @ [VADMisfire]\<rparr>
        else d\<lparr>emitted := emitted d @ [SpeechEnd seg]\<rparr>)"

definition voice_frame :: "'m vad \<Rightarrow> frame \<Rightarrow> 'm vad" where
  "voice_frame v1 frameRaw =
    (let a = v1\<lparr>voiceRun := voiceRun v1 + 1, silenceRun := 0\<rparr>;
         b = (if \<not> inSpeech a \<and> real (voiceRun a) \<ge> minSpeechFrames a
              then a\<lparr>inSpeech := True,
                     currentSegment := currentSegment a @ (if ringMax a > 0 then ring a else []),
                     postPadCountdown := 0,
                     emitted := emitted a @ [SpeechStart]\<rparr>
              else a)
     in if inSpeech b then b\<lparr>currentSegment := currentSegment b @ [frameRaw]\<rparr> else b)"

definition silence_frame :: "'m vad \<Rightarrow> frame \<Rightarrow> 'm vad" where
  "silence_frame v1 frameRaw =
    (let a = v1\<lparr>silenceRun := silenceRun v1 + 1, voiceRun := 0\<rparr>
     in if inSpeech a then
          (let b = (if postPadCountdown a = 0
                    then a\<lparr>postPadCountdown := postPadFrames a\<rparr> else a);
               c = b\<lparr>currentSegment := currentSegment b @ [frameRaw],
                      postPadCountdown := postPadCountdown b - 1\<rparr>
           in if real (silenceRun c) \<ge> minSilenceFrames c \<and> postPadCountdown c \<le> 0
              then close_segment c
              else c)
        else a)"

definition advanceState :: "'m vad \<Rightarrow> bool \<Rightarrow> real \<Rightarrow> frame \<Rightarrow> 'm vad" where
  "advanceState v0 isVoice prob frameRaw =
    (let v1 = push_ring v0 frameRaw;
         v2 = (if isVoice then voice_frame v1 frameRaw else silence_frame v1 frameRaw)
     in v2\<lparr>frameIndex := frameIndex v2 + 1\<rparr>)"

definition finalizeWithFrame :: "'m vad \<Rightarrow> frame \<Rightarrow> bool \<Rightarrow> 'm vad" where
  "finalizeWithFrame v trailingFrame treatAsSilence =
    (let a = v\<lparr>currentSegment := currentSegment v @ [trailingFrame]\<rparr>
     in if treatAsSilence then
          (let b = (if postPadCountdown a = 0
                    then a\<lparr>postPadCountdown := postPadFrames a\<rparr> else a);
               c = b\<lparr>postPadCountdown := postPadCountdown b - 1\<rparr>
           in if postPadCountdown c \<le> 0 then close_segment c else c)
        else a)"

subsection \<open>Per-frame processing\<close>

text \<open>The quantisation \<^verbatim>\<open>this._int16Frame[i] = (s * 32768) | 0\<close>.\<close>

definition quantize :: "real \<Rightarrow> int" where
  "quantize s = to_int16 (to_int32 (s * 32768))"

text \<open>
  The pre-emphasis loop over the samples of the frame: it returns the Int16 frame and the
  last raw sample, which is carried to the next frame.
\<close>

fun preemph_loop :: "real \<Rightarrow> real \<Rightarrow> real list \<Rightarrow> int list \<times> real" where
  "preemph_loop a prev [] = ([], prev)"
| "preemph_loop a prev (x # xs) =
     (let y = x - a * prev;
          s = max (- 1) (min 1 y);
          r = preemph_loop a x xs
      in (quantize s # fst r, snd r))"

text \<open>The energy of the raw frame in dBFS.\<close>

definition frame_db :: "frame \<Rightarrow> real" where
  "frame_db frameRaw =
    (let sum = sum_list (map (\<lambda>i. frameRaw ! i * frameRaw ! i) [0..<HOP_SIZE]);
         rms = sqrt (sum / real HOP_SIZE) + 1 / 10 ^ 12
     in 20 * log 10 rms)"

definition gate_open :: "real option \<Rightarrow> frame \<Rightarrow> bool" where
  "gate_open g frameRaw = (case g of None \<Rightarrow> True | Some t \<Rightarrow> frame_db frameRaw \<ge> t)"

text \<open>
  The first block of \<^verbatim>\<open>_processFrame\<close>: the Int16 copy of the frame for the classifier
  (filtered when \<^verbatim>\<open>preEmphasis > 0\<close>) and the new value of \<^verbatim>\<open>_lastSampleForPreEmph\<close>.
\<close>

definition convert_frame :: "'m vad \<Rightarrow> frame \<Rightarrow> int list \<times> real" where
  "convert_frame v frameRaw =
    (if preEmphasis v > 0
     then preemph_loop (preEmphasis v) (lastSampleForPreEmph v) frameRaw
     else (map (\<lambda>x. quantize (max (- 1) (min 1 x))) frameRaw, frameRaw ! (HOP_SIZE - 1)))"

definition processFrame :: "'m ten_vad_process \<Rightarrow> 'm vad \<Rightarrow> frame \<Rightarrow> 'm vad" where
  "processFrame tvp v frameRaw =
    (let conv = convert_frame v frameRaw;
         v1 = v\<lparr>lastSampleForPreEmph := snd conv\<rparr>;
         res = tvp (module v1) (fst conv);
         v2 = v1\<lparr>module := fst res\<rparr>;
         rc = fst (snd res);
         p = fst (snd (snd res));
         flag = snd (snd (snd res))
     in if rc \<noteq> 0 then advanceState v2 False 0 frameRaw
        else
          (let alpha = probSmoothing v2;
               v3 = v2\<lparr>pSmoothed := alpha * pSmoothed v2 + (1 - alpha) * p\<rparr>;
               gated = gate_open (energyGateDb v3) frameRaw;
               hysteresisThresh = (if inSpeech v3 then negativeSpeechThreshold v3
                                   else positiveSpeechThreshold v3);
               isVoice = (flag = 1 \<and> pSmoothed v3 \<ge> hysteresisThresh \<and> gated)
           in advanceState v3 isVoice (pSmoothed v3) frameRaw))"

subsection \<open>The public operations\<close>

definition processAudio :: "'m ten_vad_process \<Rightarrow> 'm vad \<Rightarrow> real list \<Rightarrow> 'm vad" where
  "processAudio tvp v floatChunk =
    (let combined = floatBuf v @ floatChunk;
         frames = length combined div HOP_SIZE;
         v' = foldl (\<lambda>s i. processFrame tvp s
                              (subarray combined (i * HOP_SIZE) (i * HOP_SIZE + HOP_SIZE)))
                v [0..<frames]
     in v'\<lparr>floatBuf := subarray_from combined (frames * HOP_SIZE)\<rparr>)"

text \<open>The loop of \<^verbatim>\<open>flush\<close> that pushes silent frames while the countdown is positive.\<close>

function flush_loop :: "'m vad \<Rightarrow> 'm vad" where
  "flush_loop v =
    (if postPadCountdown v > 0
     then flush_loop (finalizeWithFrame v (replicate HOP_SIZE 0) True)
     else v)"
  by pat_completeness auto
termination
  by (relation "measure (\<lambda>v. nat (postPadCountdown v))")
     (auto simp: finalizeWithFrame_def close_segment_def Let_def)

declare flush_loop.simps [simp del]

definition flush :: "'m ten_vad_process \<Rightarrow> 'm vad \<Rightarrow> 'm vad" where
  "flush tvp v =
    (let v1 = (if length (floatBuf v) > 0
               then (processAudio tvp v (set_at (replicate HOP_SIZE 0) (floatBuf v) 0))
                      \<lparr>floatBuf := []\<rparr>
               else v)
     in if inSpeech v1 then flush_loop (v1\<lparr>postPadCountdown := postPadFrames v1\<rparr>) else v1)"

subsection \<open>Auxiliary notions for the statements\<close>

text \<open>The result of the classifier call made for a frame, and the smoothing update.\<close>

definition classify ::
  "'m ten_vad_process \<Rightarrow> 'm vad \<Rightarrow> frame \<Rightarrow> 'm \<times> int \<times> real \<times> int" where
  "classify tvp v f = tvp (module v) (fst (convert_frame v f))"

definition smoothed :: "'m vad \<Rightarrow> real \<Rightarrow> real" where
  "smoothed v p = probSmoothing v * pSmoothed v + (1 - probSmoothing v) * p"

text \<open>The fields that only the constructor writes.\<close>

definition config_of :: "'m vad \<Rightarrow>
    (real \<times> real \<times> real \<times> real \<times> real) \<times>
    (real option \<times> real \<times> real \<times> real \<times> real) \<times> (int \<times> int \<times> int)" where
  "config_of v =
    ((positiveSpeechThreshold v, negativeSpeechThreshold v, minSpeechFrames v,
      minSilenceFrames v, probSmoothing v),
     (energyGateDb v, preEmphasis v, preSpeechPadMs v, postSpeechPadMs v, minSpeechMs v),
     (prePadFrames v, postPadFrames v, ringMax v))"

text \<open>
  The instances a client can reach from \<open>v0\<close> through the public operations, with the
  classifier \<open>tvp\<close>.
\<close>

inductive reachable :: "'m ten_vad_process \<Rightarrow> 'm vad \<Rightarrow> 'm vad \<Rightarrow> bool"
  for tvp :: "'m ten_vad_process" and v0 :: "'m vad" where
  reach_init: "reachable tvp v0 v0"
| reach_processAudio: "reachable tvp v0 v \<Longrightarrow> reachable tvp v0 (processAudio tvp v chunk)"
| reach_flush: "reachable tvp v0 v \<Longrightarrow> reachable tvp v0 (flush tvp v)"

subsection \<open>The frames of a sample sequence\<close>

text \<open>
  The windows that the loop of \<^verbatim>\<open>processAudio\<close> cuts from the combined buffer, in order, and
  the remainder it keeps.
\<close>

definition frames_of :: "real list \<Rightarrow> frame list" where
  "frames_of xs =
     map (\<lambda>i. subarray xs (i * HOP_SIZE) (i * HOP_SIZE + HOP_SIZE)) [0..<length xs div HOP_SIZE]"

definition remainder_of :: "real list \<Rightarrow> real list" where
  "remainder_of xs = subarray_from xs (length xs div HOP_SIZE * HOP_SIZE)"

subsection \<open>Where the emitted audio comes from\<close>

text \<open>
  An \<^verbatim>\<open>onSpeechEnd\<close> payload is built from the frames of \<open>F\<close> when it is the concatenation of
  a non-empty sequence of frames of \<open>F\<close>, whole and unmodified, in that order. An instance is
  built from \<open>F\<close> when its ring buffer, its open segment and every payload it has emitted are.
\<close>

fun from_frames :: "frame set \<Rightarrow> event \<Rightarrow> bool" where
  "from_frames F (SpeechEnd seg) = (\<exists>fs. fs \<noteq> [] \<and> set fs \<subseteq> F \<and> seg = concat fs)"
| "from_frames F SpeechStart = True"
| "from_frames F VADMisfire = True"

definition built_from :: "frame set \<Rightarrow> 'm vad \<Rightarrow> bool" where
  "built_from F v =
     (set (ring v) \<subseteq> F \<and> set (currentSegment v) \<subseteq> F \<and> (\<forall>e \<in> set (emitted v). from_frames F e))"

text \<open>The frame that \<^verbatim>\<open>flush\<close> hands to \<^verbatim>\<open>processAudio\<close> when samples are left over.\<close>

definition flush_pad :: "'m vad \<Rightarrow> real list" where
  "flush_pad v = set_at (replicate HOP_SIZE 0) (floatBuf v) 0"

subsection \<open>The fields the state machine never reads\<close>

text \<open>
  \<^verbatim>\<open>_advanceState\<close> neither reads nor writes the sample buffer, the classifier module, the
  carried pre-emphasis sample, the smoothed probability and the pre-emphasis coefficient.
\<close>

definition with_passive :: "'m vad \<Rightarrow> real list \<Rightarrow> 'm \<Rightarrow> real \<Rightarrow> real \<Rightarrow> real \<Rightarrow> 'm vad" where
  "with_passive v b m l q a =
     v\<lparr>preEmphasis := a, module := m, floatBuf := b, lastSampleForPreEmph := l, pSmoothed := q\<rparr>"

subsection \<open>The terminal event of a segment\<close>

text \<open>
  What a finalization has to emit for the accumulated frames \<open>frames\<close>:
  \<^verbatim>\<open>onVADMisfire\<close> when \<open>round (sampleCount / 16000 * 1000) < minSpeechMs\<close>, and otherwise
  \<^verbatim>\<open>onSpeechEnd\<close> with the whole accumulated audio.
\<close>

definition terminal_event :: "'m vad \<Rightarrow> frame list \<Rightarrow> event" where
  "terminal_event v frames =
     (if real_of_int (js_round (real (length (concatFrames frames)) / 16000 * 1000)) < minSpeechMs v
      then VADMisfire else SpeechEnd (concatFrames frames))"

text \<open>The value of the post-pad countdown after one more silent frame.\<close>

definition countdown_after :: "'m vad \<Rightarrow> int" where
  "countdown_after v = (if postPadCountdown v = 0 then postPadFrames v else postPadCountdown v) - 1"

subsection \<open>Test doubles for the classifier and sample inputs\<close>

text \<open>
  A scripted classifier: its internal state counts the calls, and call number \<open>k\<close>
  (from 0) returns the return code, probability and flag \<open>sc k\<close>, whatever the audio is.
\<close>

definition cls_script :: "(nat \<Rightarrow> int \<times> real \<times> int) \<Rightarrow> nat ten_vad_process" where
  "cls_script sc = (\<lambda>m q. (m + 1, sc m))"

text \<open>A frame of \<open>HOP_SIZE\<close> samples of the constant value \<open>c\<close>.\<close>

definition const_frame :: "real \<Rightarrow> frame" where
  "const_frame c = replicate HOP_SIZE c"

text \<open>Options with the two thresholds given in the inverted order.\<close>

definition inverted_opts :: opts where
  "inverted_opts = default_opts\<lparr>o_positiveSpeechThreshold := Some (3 / 10),
     o_negativeSpeechThreshold := Some (7 / 10)\<rparr>"

text \<open>
  Options for short runs: speech starts at the first voice frame and ends at the first
  silent one, with no pre-pad, one post-pad frame and no minimum duration.
\<close>

definition short_opts :: opts where
  "short_opts = default_opts\<lparr>o_minSpeechFrames := Some 1, o_minSilenceFrames := Some 1,
     o_preSpeechPadMs := Some 0, o_postSpeechPadMs := Some 16, o_minSpeechMs := Some 0\<rparr>"

text \<open>The classifier that reports voice (probability 1, flag 1) on its first \<open>n\<close> calls
  and silence (probability 0, flag 0) afterwards.\<close>

definition voice_then_silence :: "nat \<Rightarrow> nat ten_vad_process" where
  "voice_then_silence n = cls_script (\<lambda>k. if k < n then (0, 1, 1) else (0, 0, 0))"

text \<open>The classifier that returns the same return code, probability and flag on every call.\<close>

definition cls_const :: "int \<Rightarrow> real \<Rightarrow> int \<Rightarrow> nat ten_vad_process" where
  "cls_const rc p flag = cls_script (\<lambda>k. (rc, p, flag))"

text \<open>Frame number \<open>i\<close> of a test stream: \<open>HOP_SIZE\<close> samples of the value \<open>i / 64\<close>, so that
  different frames of a run hold different samples.\<close>

definition num_frame :: "nat \<Rightarrow> frame" where
  "num_frame i = const_frame (real i / 64)"

text \<open>Options with no post-padding: speech starts at the first voice frame, and
  \<^verbatim>\<open>postSpeechPadMs = 0\<close> maps to 0 post-pad frames.\<close>

definition nopad_opts :: opts where
  "nopad_opts = default_opts\<lparr>o_minSpeechFrames := Some 1, o_postSpeechPadMs := Some 0\<rparr>"

text \<open>The instance with the default options after one voice frame (smoothed probability
  \<open>4/5\<close>), and the instance with \<open>short_opts\<close> after one voice frame (in speech).\<close>

definition after_voice :: "nat vad" where
  "after_voice = processFrame (cls_const 0 1 1) (vad_constructor default_opts 0) (const_frame (1 / 2))"

definition short_in_speech :: "nat vad" where
  "short_in_speech = processFrame (cls_const 0 1 1) (vad_constructor short_opts 0) (const_frame (1 / 2))"


subsection \<open>The reference scenario\<close>

text \<open>
  Default options (\<^verbatim>\<open>minSpeechFrames = 3\<close>, \<^verbatim>\<open>minSilenceFrames = 8\<close>, 5 pre-pad frames, 10 post-pad
  frames, \<^verbatim>\<open>minSpeechMs = 150\<close>). The stream is frames number 0 to 34; the classifier
  \<open>voice_then_silence 23\<close> reports voice on frames 0 to 22 (the 3 frames that start speech and
  20 more) and silence on frames 23 to 34.
\<close>

definition onset_frames :: "frame list" where
  "onset_frames = map num_frame [0, 1, 2]"

definition reference_frames :: "frame list" where
  "reference_frames = map num_frame (0 # 1 # [2..<35])"

text \<open>The frames of the segment that the code emits: frame 2 stands twice.\<close>

definition reference_segment_frames :: "frame list" where
  "reference_segment_frames = map num_frame (0 # 1 # 2 # [2..<33])"

text \<open>
  The same scenario after 5 leading silent frames, so that the ring buffer is full when
  speech starts: the stream is frames number 0 to 39, the classifier reports silence on
  frames 0 to 4, voice on frames 5 to 27, and silence on frames 28 to 39.
\<close>

definition silence_voice_silence :: "nat \<Rightarrow> nat \<Rightarrow> nat ten_vad_process" where
  "silence_voice_silence a b = cls_script (\<lambda>k. if a \<le> k \<and> k < b then (0, 1, 1) else (0, 0, 0))"

definition padded_onset_frames :: "frame list" where
  "padded_onset_frames = map num_frame (0 # 1 # [2..<8])"

definition padded_frames :: "frame list" where
  "padded_frames = map num_frame (0 # 1 # [2..<40])"

text \<open>The frames of the segment that the code emits: frame 7 stands twice.\<close>

definition padded_segment_frames :: "frame list" where
  "padded_segment_frames = map num_frame ([3..<8] @ [7..<38])"

text \<open>The instance with \<open>nopad_opts\<close> after one voice frame: in speech, with an open segment.\<close>

definition nopad_in_speech :: "nat vad" where
  "nopad_in_speech =
     processAudio (cls_const 0 1 1) (vad_constructor nopad_opts 0) (concat [const_frame (1 / 2)])"

subsection \<open>A stream that ends inside a frame\<close>

text \<open>
  One whole frame of samples \<open>1/2\<close> followed by two samples \<open>1/4\<close>: 258 samples, so that two
  samples are left in \<^verbatim>\<open>_floatBuf\<close> when \<^verbatim>\<open>flush()\<close> is called.
\<close>

definition leftover_input :: "real list" where
  "leftover_input = const_frame (1 / 2) @ [1 / 4, 1 / 4]"

text \<open>The two leftover samples padded with zeros to one frame.\<close>

definition zero_padded_leftover :: frame where
  "zero_padded_leftover = [1 / 4, 1 / 4] @ replicate (HOP_SIZE - 2) 0"

text \<open>The frame that \<^verbatim>\<open>flush()\<close> processes for them: the two samples stand twice.\<close>

definition flushed_frame :: frame where
  "flushed_frame = [1 / 4, 1 / 4, 1 / 4, 1 / 4] @ replicate (HOP_SIZE - 4) 0"

section \<open>Basic facts\<close>

subsection \<open>The configuration is never written\<close>

lemma config_of_upd [simp]:
  "config_of (v\<lparr>floatBuf := a1\<rparr>) = config_of v"
  "config_of (v\<lparr>postPadCountdown := a2\<rparr>) = config_of v"
  "config_of (v\<lparr>module := a3\<rparr>) = config_of v"
  "config_of (v\<lparr>pSmoothed := a4\<rparr>) = config_of v"
  "config_of (v\<lparr>lastSampleForPreEmph := a5\<rparr>) = config_of v"
  by (simp_all add: config_of_def)

lemma config_of_upd2 [simp]:
  "config_of (v\<lparr>frameIndex := a6\<rparr>) = config_of v"
  "config_of (v\<lparr>currentSegment := a7\<rparr>) = config_of v"
  "config_of (v\<lparr>ring := a8\<rparr>) = config_of v"
  "config_of (v\<lparr>emitted := a9\<rparr>) = config_of v"
  "config_of (v\<lparr>inSpeech := a10\<rparr>) = config_of v"
  "config_of (v\<lparr>voiceRun := a11\<rparr>) = config_of v"
  "config_of (v\<lparr>silenceRun := a12\<rparr>) = config_of v"
  by (simp_all add: config_of_def)

lemma config_push_ring [simp]: "config_of (push_ring v f) = config_of v"
  by (simp add: push_ring_def)

lemma config_close_segment [simp]: "config_of (close_segment v) = config_of v"
  by (simp add: close_segment_def Let_def)

lemma config_voice_frame [simp]: "config_of (voice_frame v f) = config_of v"
  by (simp add: voice_frame_def Let_def)

lemma config_silence_frame [simp]: "config_of (silence_frame v f) = config_of v"
  by (simp add: silence_frame_def Let_def)

lemma config_advanceState: "config_of (advanceState v b p f) = config_of v"
  by (simp add: advanceState_def Let_def)

lemma config_finalizeWithFrame: "config_of (finalizeWithFrame v f b) = config_of v"
  by (simp add: finalizeWithFrame_def Let_def)

lemma processFrame_error:
  assumes "fst (snd (classify tvp v f)) \<noteq> 0"
  shows "processFrame tvp v f =
      advanceState (v\<lparr>lastSampleForPreEmph := snd (convert_frame v f),
         module := fst (classify tvp v f)\<rparr>) False 0 f"
  using assms unfolding processFrame_def Let_def classify_def
  by (simp split del: if_split cong: if_cong)

lemma processFrame_success:
  assumes "fst (snd (classify tvp v f)) = 0"
  shows "processFrame tvp v f =
      advanceState (v\<lparr>lastSampleForPreEmph := snd (convert_frame v f),
         module := fst (classify tvp v f),
         pSmoothed := smoothed v (fst (snd (snd (classify tvp v f))))\<rparr>)
        (snd (snd (snd (classify tvp v f))) = 1
          \<and> smoothed v (fst (snd (snd (classify tvp v f))))
               \<ge> (if inSpeech v then negativeSpeechThreshold v else positiveSpeechThreshold v)
          \<and> gate_open (energyGateDb v) f)
        (smoothed v (fst (snd (snd (classify tvp v f))))) f"
  using assms unfolding processFrame_def Let_def classify_def smoothed_def
  by (simp split del: if_split cong: if_cong)

lemma processFrame_as_advance:
  "\<exists>l m q b p. processFrame tvp v f =
     advanceState (v\<lparr>lastSampleForPreEmph := l, module := m, pSmoothed := q\<rparr>) b p f"
proof (cases "fst (snd (classify tvp v f)) \<noteq> 0")
  case True
  have "v\<lparr>lastSampleForPreEmph := snd (convert_frame v f), module := fst (classify tvp v f)\<rparr>
     = v\<lparr>lastSampleForPreEmph := snd (convert_frame v f), module := fst (classify tvp v f),
          pSmoothed := pSmoothed v\<rparr>"
    by simp
  with processFrame_error[OF True] show ?thesis by metis
next
  case False
  then have z: "fst (snd (classify tvp v f)) = 0" by simp
  from processFrame_success[OF z] show ?thesis by blast
qed

lemma config_processFrame: "config_of (processFrame tvp v f) = config_of v"
  using processFrame_as_advance[of tvp v f] by (auto simp: config_advanceState)

lemma config_foldl_processFrame:
  "config_of (foldl (\<lambda>s i. processFrame tvp s (g i)) v ns) = config_of v"
  by (induction ns arbitrary: v) (simp_all add: config_processFrame)

lemma config_processAudio: "config_of (processAudio tvp v chunk) = config_of v"
  by (simp add: processAudio_def Let_def config_foldl_processFrame)

lemma flush_loop_step:
  "postPadCountdown v > 0 \<Longrightarrow>
     flush_loop v = flush_loop (finalizeWithFrame v (replicate HOP_SIZE 0) True)"
  by (subst flush_loop.simps) simp

lemma flush_loop_stop: "postPadCountdown v \<le> 0 \<Longrightarrow> flush_loop v = v"
  by (subst flush_loop.simps) simp

lemma config_flush_loop: "config_of (flush_loop v) = config_of v"
proof (induction v rule: flush_loop.induct)
  case (1 v)
  show ?case
  proof (cases "postPadCountdown v > 0")
    case True
    with 1 show ?thesis by (simp add: flush_loop_step config_finalizeWithFrame)
  next
    case False
    then show ?thesis by (simp add: flush_loop_stop)
  qed
qed

lemma config_flush: "config_of (flush tvp v) = config_of v"
  by (simp add: flush_def Let_def config_flush_loop config_processAudio)

lemma config_reachable: "reachable tvp v0 v \<Longrightarrow> config_of v = config_of v0"
  by (induction rule: reachable.induct) (simp_all add: config_processAudio config_flush)

section \<open>The thresholds\<close>

lemma constructor_thresholds:
  "negativeSpeechThreshold (vad_constructor opts m)
     \<le> positiveSpeechThreshold (vad_constructor opts m)"
proof -
  have sw: "(if b > a then a else b) \<le> (if b > a then b else a)" for a b :: real
    by simp
  show ?thesis
    unfolding vad_constructor_def Let_def
    by (simp only: vad.select_convs sw)
qed

lemma thresholds_of_config:
  "config_of v = config_of w \<Longrightarrow>
     negativeSpeechThreshold v = negativeSpeechThreshold w \<and>
     positiveSpeechThreshold v = positiveSpeechThreshold w"
  by (simp add: config_of_def)

text \<open>
  Claim C5. For every pair of threshold options, also an inverted one, the constructed
  instance has \<open>negativeSpeechThreshold \<le> positiveSpeechThreshold\<close>, and every instance
  reached from it by \<^verbatim>\<open>processAudio\<close> and \<^verbatim>\<open>flush\<close> calls still holds the two values the
  constructor stored, hence the same order.
\<close>

theorem thresholds_ordered:
  assumes "reachable tvp (vad_constructor opts m) v"
  shows "negativeSpeechThreshold v \<le> positiveSpeechThreshold v
       \<and> negativeSpeechThreshold v = negativeSpeechThreshold (vad_constructor opts m)
       \<and> positiveSpeechThreshold v = positiveSpeechThreshold (vad_constructor opts m)"
  using thresholds_of_config[OF config_reachable[OF assms]] constructor_thresholds[of opts m]
  by simp

theorem thresholds_ordered_witness:
  "negativeSpeechThreshold
      (flush (cls_script (\<lambda>k. (0, 1, 1)))
        (processAudio (cls_script (\<lambda>k. (0, 1, 1))) (vad_constructor inverted_opts 0) [1 / 2]))
    = 3 / 10
   \<and> positiveSpeechThreshold
      (flush (cls_script (\<lambda>k. (0, 1, 1)))
        (processAudio (cls_script (\<lambda>k. (0, 1, 1))) (vad_constructor inverted_opts 0) [1 / 2]))
    = 7 / 10"
proof -
  have r: "reachable (cls_script (\<lambda>k. (0, 1, 1))) (vad_constructor inverted_opts 0)
      (flush (cls_script (\<lambda>k. (0, 1, 1)))
        (processAudio (cls_script (\<lambda>k. (0, 1, 1))) (vad_constructor inverted_opts 0) [1 / 2]))"
    by (intro reach_flush reach_processAudio reach_init)
  have c: "negativeSpeechThreshold (vad_constructor inverted_opts (0::nat)) = 3 / 10"
    "positiveSpeechThreshold (vad_constructor inverted_opts (0::nat)) = 7 / 10"
    by (simp_all add: vad_constructor_def inverted_opts_def default_opts_def nullish_def Let_def)
  from thresholds_ordered[OF r] c show ?thesis by simp
qed

section \<open>Flushing\<close>

lemma finalizeWithFrame_fields:
  "floatBuf (finalizeWithFrame v f b) = floatBuf v"
  "postPadFrames (finalizeWithFrame v f b) = postPadFrames v"
  by (simp_all add: finalizeWithFrame_def close_segment_def Let_def)

lemma finalizeWithFrame_countdown:
  "postPadCountdown v > 0 \<Longrightarrow>
     postPadCountdown (finalizeWithFrame v f True) = postPadCountdown v - 1"
  by (simp add: finalizeWithFrame_def close_segment_def Let_def)

lemma finalizeWithFrame_closes:
  "postPadCountdown v = 1 \<Longrightarrow> \<not> inSpeech (finalizeWithFrame v f True)"
  by (simp add: finalizeWithFrame_def close_segment_def Let_def)

lemma flush_loop_floatBuf: "floatBuf (flush_loop v) = floatBuf v"
proof (induction v rule: flush_loop.induct)
  case (1 v)
  show ?case
  proof (cases "postPadCountdown v > 0")
    case True
    with 1 show ?thesis by (simp add: flush_loop_step finalizeWithFrame_fields)
  next
    case False
    then show ?thesis by (simp add: flush_loop_stop)
  qed
qed

lemma flush_loop_closes: "postPadCountdown v > 0 \<Longrightarrow> \<not> inSpeech (flush_loop v)"
proof (induction v rule: flush_loop.induct)
  case (1 v)
  let ?w = "finalizeWithFrame v (replicate HOP_SIZE 0) True"
  from 1(2) have step: "flush_loop v = flush_loop ?w" by (rule flush_loop_step)
  show ?case
  proof (cases "postPadCountdown v = 1")
    case True
    then have "postPadCountdown ?w = 0"
      using finalizeWithFrame_countdown[of v "replicate HOP_SIZE 0"] by simp
    then have "flush_loop ?w = ?w" by (simp add: flush_loop_stop)
    with step finalizeWithFrame_closes[OF True] show ?thesis by simp
  next
    case False
    with 1(2) have "postPadCountdown ?w > 0"
      using finalizeWithFrame_countdown[of v "replicate HOP_SIZE 0"] by simp
    with 1(1)[OF 1(2)] step show ?thesis by simp
  qed
qed

lemma flush_floatBuf: "floatBuf (flush tvp v) = []"
  by (simp add: flush_def Let_def flush_loop_floatBuf)

text \<open>
  After \<^verbatim>\<open>flush\<close> the instance is out of speech, or the post-pad frame count is not
  positive and the loop of \<^verbatim>\<open>flush\<close> has not run.
\<close>

lemma flush_cases:
  "\<not> inSpeech (flush tvp v) \<or>
    (postPadCountdown (flush tvp v) = postPadFrames (flush tvp v)
      \<and> postPadFrames (flush tvp v) \<le> 0)"
proof -
  define v1 where "v1 = (if length (floatBuf v) > 0
               then (processAudio tvp v (set_at (replicate HOP_SIZE 0) (floatBuf v) 0))
                      \<lparr>floatBuf := []\<rparr>
               else v)"
  have fl: "flush tvp v =
      (if inSpeech v1 then flush_loop (v1\<lparr>postPadCountdown := postPadFrames v1\<rparr>) else v1)"
    by (simp add: flush_def v1_def Let_def)
  show ?thesis
  proof (cases "inSpeech v1")
    case False
    with fl show ?thesis by simp
  next
    case True
    show ?thesis
    proof (cases "postPadFrames v1 > 0")
      case True
      then have "\<not> inSpeech (flush_loop (v1\<lparr>postPadCountdown := postPadFrames v1\<rparr>))"
        by (intro flush_loop_closes) simp
      with fl \<open>inSpeech v1\<close> show ?thesis by simp
    next
      case False
      then have "flush_loop (v1\<lparr>postPadCountdown := postPadFrames v1\<rparr>)
          = v1\<lparr>postPadCountdown := postPadFrames v1\<rparr>"
        by (intro flush_loop_stop) simp
      with fl \<open>inSpeech v1\<close> False show ?thesis by simp
    qed
  qed
qed

text \<open>
  Claim C7. \<^verbatim>\<open>flush\<close> is idempotent: on every instance, a second \<^verbatim>\<open>flush\<close> right after a
  first one returns the instance unchanged; the log of callback invocations is a field of
  the instance, so the second call invokes no callback.
\<close>

theorem flush_idempotent: "flush tvp (flush tvp v) = flush tvp v"
proof -
  define w where "w = flush tvp v"
  have buf: "floatBuf w = []" by (simp add: w_def flush_floatBuf)
  have fl: "flush tvp w =
      (if inSpeech w then flush_loop (w\<lparr>postPadCountdown := postPadFrames w\<rparr>) else w)"
    using buf by (simp add: flush_def Let_def)
  show ?thesis
  proof (cases "inSpeech w")
    case False
    with fl show ?thesis by (simp add: w_def)
  next
    case True
    with flush_cases[of tvp v]
    have c: "postPadCountdown w = postPadFrames w" "postPadFrames w \<le> 0"
      by (simp_all add: w_def)
    from c(1) have "w\<lparr>postPadCountdown := postPadFrames w\<rparr> = w" by simp
    moreover from c have "flush_loop w = w" by (simp add: flush_loop_stop)
    ultimately show ?thesis using fl True by (simp add: w_def)
  qed
qed

section \<open>Framing and chunk boundaries\<close>

lemma HOP_SIZE_pos: "0 < HOP_SIZE"
  by (simp add: HOP_SIZE_def)

lemma frames_of_short: "length xs < HOP_SIZE \<Longrightarrow> frames_of xs = []"
  by (simp add: frames_of_def)

lemma frames_of_rec:
  assumes "HOP_SIZE \<le> length xs"
  shows "frames_of xs = take HOP_SIZE xs # frames_of (drop HOP_SIZE xs)"
proof -
  from assms HOP_SIZE_pos have d: "length xs div HOP_SIZE = Suc ((length xs - HOP_SIZE) div HOP_SIZE)"
    by (simp add: le_div_geq)
  have up: "[0..<Suc n] = 0 # map Suc [0..<n]" for n
    by (simp add: upt_conv_Cons map_Suc_upt del: upt_Suc)
  show ?thesis
    unfolding frames_of_def d up
    by (simp add: subarray_def o_def add.commute drop_drop del: upt_Suc)
qed

lemma remainder_of_short: "length xs < HOP_SIZE \<Longrightarrow> remainder_of xs = xs"
  by (simp add: remainder_of_def subarray_from_def)

lemma remainder_of_rec:
  assumes "HOP_SIZE \<le> length xs"
  shows "remainder_of xs = remainder_of (drop HOP_SIZE xs)"
proof -
  from assms HOP_SIZE_pos have d: "length xs div HOP_SIZE = Suc ((length xs - HOP_SIZE) div HOP_SIZE)"
    by (simp add: le_div_geq)
  show ?thesis
    unfolding remainder_of_def subarray_from_def
    by (simp add: d add.commute)
qed

lemma length_remainder_of: "length (remainder_of xs) < HOP_SIZE"
  using HOP_SIZE_pos
  by (simp add: remainder_of_def subarray_from_def minus_div_mult_eq_mod)

lemma frames_remainder_append:
  "frames_of (xs @ ys) = frames_of xs @ frames_of (remainder_of xs @ ys)
   \<and> remainder_of (xs @ ys) = remainder_of (remainder_of xs @ ys)"
proof (induction "length xs" arbitrary: xs rule: less_induct)
  case less
  show ?case
  proof (cases "length xs < HOP_SIZE")
    case True
    then show ?thesis by (simp add: frames_of_short remainder_of_short)
  next
    case False
    then have ge: "HOP_SIZE \<le> length xs" by simp
    then have ge': "HOP_SIZE \<le> length (xs @ ys)" by simp
    have lt: "length (drop HOP_SIZE xs) < length xs"
      using ge HOP_SIZE_pos by simp
    from less[OF lt] ge show ?thesis
      by (simp add: frames_of_rec[OF ge] frames_of_rec[OF ge'] remainder_of_rec[OF ge]
          remainder_of_rec[OF ge'])
  qed
qed

lemma push_ring_floatBuf:
  "push_ring (v\<lparr>floatBuf := b\<rparr>) f = (push_ring v f)\<lparr>floatBuf := b\<rparr>"
  by (simp add: push_ring_def)

lemma close_segment_floatBuf:
  "close_segment (v\<lparr>floatBuf := b\<rparr>) = (close_segment v)\<lparr>floatBuf := b\<rparr>"
  by (simp add: close_segment_def Let_def)

lemma voice_frame_floatBuf:
  "voice_frame (v\<lparr>floatBuf := b\<rparr>) f = (voice_frame v f)\<lparr>floatBuf := b\<rparr>"
  by (simp add: voice_frame_def Let_def)

lemma silence_frame_floatBuf:
  "silence_frame (v\<lparr>floatBuf := b\<rparr>) f = (silence_frame v f)\<lparr>floatBuf := b\<rparr>"
  by (simp add: silence_frame_def close_segment_def Let_def)

lemma advanceState_floatBuf:
  "advanceState (v\<lparr>floatBuf := b\<rparr>) x p f = (advanceState v x p f)\<lparr>floatBuf := b\<rparr>"
  by (simp add: advanceState_def Let_def push_ring_floatBuf voice_frame_floatBuf
      silence_frame_floatBuf)

lemma classify_floatBuf:
  "convert_frame (v\<lparr>floatBuf := b\<rparr>) f = convert_frame v f"
  "classify tvp (v\<lparr>floatBuf := b\<rparr>) f = classify tvp v f"
  "smoothed (v\<lparr>floatBuf := b\<rparr>) p = smoothed v p"
  by (simp_all add: convert_frame_def classify_def smoothed_def)

lemma processFrame_floatBuf:
  "processFrame tvp (v\<lparr>floatBuf := b\<rparr>) f = (processFrame tvp v f)\<lparr>floatBuf := b\<rparr>"
proof (cases "fst (snd (classify tvp v f)) \<noteq> 0")
  case True
  then have t: "fst (snd (classify tvp (v\<lparr>floatBuf := b\<rparr>) f)) \<noteq> 0"
    by (simp add: classify_floatBuf)
  have "advanceState (v\<lparr>floatBuf := b, lastSampleForPreEmph := l, module := m\<rparr>) x p f
      = (advanceState (v\<lparr>lastSampleForPreEmph := l, module := m\<rparr>) x p f)\<lparr>floatBuf := b\<rparr>"
    for l m x p
  proof -
    have "v\<lparr>floatBuf := b, lastSampleForPreEmph := l, module := m\<rparr>
        = (v\<lparr>lastSampleForPreEmph := l, module := m\<rparr>)\<lparr>floatBuf := b\<rparr>"
      by simp
    then show "advanceState (v\<lparr>floatBuf := b, lastSampleForPreEmph := l, module := m\<rparr>) x p f
      = (advanceState (v\<lparr>lastSampleForPreEmph := l, module := m\<rparr>) x p f)\<lparr>floatBuf := b\<rparr>"
      by (simp only: advanceState_floatBuf)
  qed
  then show ?thesis
    unfolding processFrame_error[OF True] processFrame_error[OF t] classify_floatBuf
    by simp
next
  case False
  then have z: "fst (snd (classify tvp v f)) = 0" by simp
  then have t: "fst (snd (classify tvp (v\<lparr>floatBuf := b\<rparr>) f)) = 0"
    by (simp add: classify_floatBuf)
  have "advanceState (v\<lparr>floatBuf := b, lastSampleForPreEmph := l, module := m,
           pSmoothed := q\<rparr>) x p f
      = (advanceState (v\<lparr>lastSampleForPreEmph := l, module := m, pSmoothed := q\<rparr>) x p f)
          \<lparr>floatBuf := b\<rparr>"
    for l m q x p
  proof -
    have "v\<lparr>floatBuf := b, lastSampleForPreEmph := l, module := m, pSmoothed := q\<rparr>
        = (v\<lparr>lastSampleForPreEmph := l, module := m, pSmoothed := q\<rparr>)\<lparr>floatBuf := b\<rparr>"
      by simp
    then show "advanceState (v\<lparr>floatBuf := b, lastSampleForPreEmph := l, module := m,
           pSmoothed := q\<rparr>) x p f
      = (advanceState (v\<lparr>lastSampleForPreEmph := l, module := m, pSmoothed := q\<rparr>) x p f)
          \<lparr>floatBuf := b\<rparr>"
      by (simp only: advanceState_floatBuf)
  qed
  then show ?thesis
    unfolding processFrame_success[OF z] processFrame_success[OF t] classify_floatBuf
    by simp
qed

lemma run_frames_floatBuf:
  "foldl (processFrame tvp) (v\<lparr>floatBuf := b\<rparr>) fs
     = (foldl (processFrame tvp) v fs)\<lparr>floatBuf := b\<rparr>"
  by (induction fs arbitrary: v) (simp_all add: processFrame_floatBuf)

lemma processAudio_frames:
  "processAudio tvp v chunk =
     (foldl (processFrame tvp) v (frames_of (floatBuf v @ chunk)))
        \<lparr>floatBuf := remainder_of (floatBuf v @ chunk)\<rparr>"
  by (simp add: processAudio_def Let_def frames_of_def remainder_of_def foldl_map)

text \<open>
  Claim C6. Chunk-boundary invariance: two successive \<^verbatim>\<open>processAudio\<close> calls on \<open>a\<close> and \<open>b\<close>
  leave the instance (its whole state, the log of callbacks and their segments included)
  as one call on \<open>a @ b\<close> does; hence feeding a sample sequence in any number of chunks,
  cut anywhere, is the same as feeding it in one call. The classifier is a deterministic
  function \<open>tvp\<close> of its internal state and the frame.
\<close>

theorem chunk_invariance:
  "processAudio tvp (processAudio tvp v a) b = processAudio tvp v (a @ b)
   \<and> foldl (processAudio tvp) (processAudio tvp v c) cs = processAudio tvp v (concat (c # cs))"
proof -
  have two: "processAudio tvp (processAudio tvp w a) b = processAudio tvp w (a @ b)" for w a b
  proof -
    have "floatBuf (processAudio tvp w a) = remainder_of (floatBuf w @ a)"
      by (simp add: processAudio_frames)
    then show ?thesis
      using frames_remainder_append[of "floatBuf w @ a" b]
      by (simp add: processAudio_frames run_frames_floatBuf)
  qed
  have many: "foldl (processAudio tvp) (processAudio tvp w c) cs = processAudio tvp w (concat (c # cs))"
    for w c cs
  proof (induction cs arbitrary: c)
    case Nil
    then show ?case by simp
  next
    case (Cons d ds)
    have "foldl (processAudio tvp) (processAudio tvp w c) (d # ds)
        = foldl (processAudio tvp) (processAudio tvp w (c @ d)) ds"
      by (simp add: two)
    also have "\<dots> = processAudio tvp w (concat ((c @ d) # ds))" by (rule Cons.IH)
    finally show ?case by simp
  qed
  from two many show ?thesis by blast
qed

section \<open>The emitted audio is built from whole raw frames\<close>

lemma concat_loop_in_range:
  "off + length (concat fs) \<le> length out \<Longrightarrow>
     concat_loop fs out off = take off out @ concat fs @ drop (off + length (concat fs)) out"
proof (induction fs arbitrary: out off)
  case Nil
  then show ?case by simp
next
  case (Cons f fs)
  let ?out = "set_at out f off"
  from Cons.prems have r: "off + length f \<le> length out" by simp
  then have len: "length ?out = length out"
    by (simp add: set_at_def)
  from Cons.prems len have p: "(off + length f) + length (concat fs) \<le> length ?out"
    by simp
  have t: "take (off + length f) ?out = take off out @ f"
    using r by (simp add: set_at_def)
  have e: "drop (off + length f) ?out = drop (off + length f) out"
    using r by (simp add: set_at_def)
  have d: "drop (off + (length f + length (concat fs))) ?out
         = drop (off + (length f + length (concat fs))) out"
    using e by (metis add.assoc add.commute drop_drop)
  show ?case
    by (simp add: Cons.IH[OF p] t d add.assoc)
qed

lemma length_concat_frames:
  "\<forall>f \<in> set fs. length f = n \<Longrightarrow> length (concat fs) = length fs * n"
  by (induction fs) simp_all

lemma concatFrames_concat:
  assumes "\<forall>f \<in> set fs. length f = HOP_SIZE"
  shows "concatFrames fs = concat fs"
proof -
  have l: "length (concat fs) = length fs * HOP_SIZE"
    using assms by (rule length_concat_frames)
  then have "0 + length (concat fs) \<le> length (replicate (length fs * HOP_SIZE) (0::real))"
    by simp
  from concat_loop_in_range[OF this] l show ?thesis
    by (simp add: concatFrames_def)
qed

lemma built_from_mono: "built_from F v \<Longrightarrow> F \<subseteq> G \<Longrightarrow> built_from G v"
proof -
  have m: "from_frames F e \<Longrightarrow> F \<subseteq> G \<Longrightarrow> from_frames G e" for e
    by (cases e) auto
  show "built_from F v \<Longrightarrow> F \<subseteq> G \<Longrightarrow> built_from G v"
    unfolding built_from_def using m by blast
qed

lemma built_from_passive [simp]:
  "built_from F (v\<lparr>floatBuf := a1\<rparr>) = built_from F v"
  "built_from F (v\<lparr>postPadCountdown := a2\<rparr>) = built_from F v"
  "built_from F (v\<lparr>module := a3\<rparr>) = built_from F v"
  "built_from F (v\<lparr>pSmoothed := a4\<rparr>) = built_from F v"
  "built_from F (v\<lparr>lastSampleForPreEmph := a5\<rparr>) = built_from F v"
  "built_from F (v\<lparr>frameIndex := a6\<rparr>) = built_from F v"
  "built_from F (v\<lparr>inSpeech := a10\<rparr>) = built_from F v"
  "built_from F (v\<lparr>voiceRun := a11\<rparr>) = built_from F v"
  "built_from F (v\<lparr>silenceRun := a12\<rparr>) = built_from F v"
  by (simp_all add: built_from_def)

lemma built_from_push_ring:
  "built_from F v \<Longrightarrow> f \<in> F \<Longrightarrow> built_from F (push_ring v f)"
proof -
  have "set (tl xs) \<subseteq> set xs" for xs :: "frame list" by (cases xs) auto
  then show "built_from F v \<Longrightarrow> f \<in> F \<Longrightarrow> built_from F (push_ring v f)"
    unfolding built_from_def push_ring_def by (auto simp: subset_iff)
qed

lemma built_from_close_segment:
  assumes "built_from F c" "currentSegment c \<noteq> []" "\<forall>f \<in> F. length f = HOP_SIZE"
  shows "built_from F (close_segment c)"
proof -
  from assms(1) have s: "set (currentSegment c) \<subseteq> F" by (simp add: built_from_def)
  with assms(3) have "\<forall>f \<in> set (currentSegment c). length f = HOP_SIZE" by blast
  then have cc: "concatFrames (currentSegment c) = concat (currentSegment c)"
    by (rule concatFrames_concat)
  have "from_frames F (SpeechEnd (concatFrames (currentSegment c)))"
    unfolding cc using s assms(2) by auto
  with assms(1) show ?thesis
    by (simp add: close_segment_def Let_def built_from_def)
qed

lemma built_from_voice_frame:
  "built_from F v \<Longrightarrow> f \<in> F \<Longrightarrow> built_from F (voice_frame v f)"
  by (auto simp: voice_frame_def Let_def built_from_def)

lemma built_from_silence_frame:
  assumes "built_from F v" "f \<in> F" "\<forall>f \<in> F. length f = HOP_SIZE"
  shows "built_from F (silence_frame v f)"
proof -
  from assms(1,2) have s: "set (currentSegment v @ [f]) \<subseteq> F" by (simp add: built_from_def)
  with assms(3) have "\<forall>g \<in> set (currentSegment v @ [f]). length g = HOP_SIZE" by blast
  then have cc: "concatFrames (currentSegment v @ [f]) = concat (currentSegment v @ [f])"
    by (rule concatFrames_concat)
  have ff: "from_frames F (SpeechEnd (concat (currentSegment v @ [f])))"
    unfolding from_frames.simps using s by blast
  show ?thesis
    using assms(1,2) ff
    by (simp add: silence_frame_def close_segment_def Let_def built_from_def cc
          del: from_frames.simps(1) concat_append)
qed

lemma built_from_advanceState:
  assumes "built_from F v" "f \<in> F" "\<forall>f \<in> F. length f = HOP_SIZE"
  shows "built_from F (advanceState v b p f)"
  using assms
  by (simp add: advanceState_def Let_def built_from_push_ring built_from_voice_frame
      built_from_silence_frame)

lemma built_from_processFrame:
  assumes "built_from F v" "f \<in> F" "\<forall>f \<in> F. length f = HOP_SIZE"
  shows "built_from F (processFrame tvp v f)"
proof -
  from processFrame_as_advance[of tvp v f] obtain l m q b p where
    e: "processFrame tvp v f =
     advanceState (v\<lparr>lastSampleForPreEmph := l, module := m, pSmoothed := q\<rparr>) b p f"
    by blast
  show ?thesis
    unfolding e using assms by (intro built_from_advanceState) simp_all
qed

lemma built_from_run_frames:
  assumes "\<forall>f \<in> F. length f = HOP_SIZE"
  shows "built_from F v \<Longrightarrow> set fs \<subseteq> F \<Longrightarrow> built_from F (foldl (processFrame tvp) v fs)"
  by (induction fs arbitrary: v) (simp_all add: built_from_processFrame assms)

lemma length_frames_of: "f \<in> set (frames_of xs) \<Longrightarrow> length f = HOP_SIZE"
proof -
  assume "f \<in> set (frames_of xs)"
  then obtain i where i: "i < length xs div HOP_SIZE"
    and f: "f = subarray xs (i * HOP_SIZE) (i * HOP_SIZE + HOP_SIZE)"
    by (auto simp: frames_of_def)
  from i have "Suc i \<le> length xs div HOP_SIZE" by simp
  then have "Suc i * HOP_SIZE \<le> length xs div HOP_SIZE * HOP_SIZE"
    by (rule mult_le_mono1)
  also have "\<dots> \<le> length xs" by simp
  finally have "i * HOP_SIZE + HOP_SIZE \<le> length xs" by simp
  then show ?thesis by (simp add: f subarray_def)
qed

lemma built_from_processAudio:
  assumes "built_from F v" "\<forall>f \<in> F. length f = HOP_SIZE"
  shows "built_from (F \<union> set (frames_of (floatBuf v @ chunk))) (processAudio tvp v chunk)"
proof -
  let ?G = "F \<union> set (frames_of (floatBuf v @ chunk))"
  have l: "\<forall>f \<in> ?G. length f = HOP_SIZE"
    using assms(2) length_frames_of by blast
  have "built_from ?G v" using assms(1) by (rule built_from_mono) simp
  from built_from_run_frames[OF l this, of "frames_of (floatBuf v @ chunk)" tvp]
  show ?thesis by (simp add: processAudio_frames)
qed

lemma built_from_finalizeWithFrame:
  assumes "built_from F v" "f \<in> F" "\<forall>f \<in> F. length f = HOP_SIZE"
  shows "built_from F (finalizeWithFrame v f b)"
proof -
  from assms(1,2) have s: "set (currentSegment v @ [f]) \<subseteq> F" by (simp add: built_from_def)
  with assms(3) have "\<forall>g \<in> set (currentSegment v @ [f]). length g = HOP_SIZE" by blast
  then have cc: "concatFrames (currentSegment v @ [f]) = concat (currentSegment v @ [f])"
    by (rule concatFrames_concat)
  have ff: "from_frames F (SpeechEnd (concat (currentSegment v @ [f])))"
    unfolding from_frames.simps using s by blast
  show ?thesis
    using assms(1,2) ff
    by (simp add: finalizeWithFrame_def close_segment_def Let_def built_from_def cc
          del: from_frames.simps(1) concat_append)
qed

lemma built_from_flush_loop:
  assumes "replicate HOP_SIZE 0 \<in> F" "\<forall>f \<in> F. length f = HOP_SIZE"
  shows "built_from F v \<Longrightarrow> built_from F (flush_loop v)"
proof (induction v rule: flush_loop.induct)
  case (1 v)
  show ?case
  proof (cases "postPadCountdown v > 0")
    case True
    from 1(2) have "built_from F (finalizeWithFrame v (replicate HOP_SIZE 0) True)"
      using assms by (intro built_from_finalizeWithFrame)
    with 1(1)[OF True] True show ?thesis by (simp add: flush_loop_step)
  next
    case False
    with 1(2) show ?thesis by (simp add: flush_loop_stop)
  qed
qed

lemma built_from_flush:
  assumes "built_from F v" "\<forall>f \<in> F. length f = HOP_SIZE"
  shows "built_from (F \<union> set (frames_of (floatBuf v @ flush_pad v)) \<union> {replicate HOP_SIZE 0})
           (flush tvp v)"
proof -
  let ?G = "F \<union> set (frames_of (floatBuf v @ flush_pad v)) \<union> {replicate HOP_SIZE 0}"
  define v1 where "v1 = (if length (floatBuf v) > 0
               then (processAudio tvp v (flush_pad v))\<lparr>floatBuf := []\<rparr>
               else v)"
  have fl: "flush tvp v =
      (if inSpeech v1 then flush_loop (v1\<lparr>postPadCountdown := postPadFrames v1\<rparr>) else v1)"
    by (simp add: flush_def v1_def Let_def flush_pad_def)
  have l: "\<forall>f \<in> ?G. length f = HOP_SIZE"
    using assms(2) length_frames_of by auto
  have z: "replicate HOP_SIZE 0 \<in> ?G" by simp
  have "built_from ?G v1"
  proof (cases "length (floatBuf v) > 0")
    case True
    have "built_from ?G (processAudio tvp v (flush_pad v))"
      using built_from_processAudio[OF assms, of "flush_pad v" tvp]
      by (rule built_from_mono) auto
    with True show ?thesis by (simp add: v1_def)
  next
    case False
    have "built_from ?G v" using assms(1) by (rule built_from_mono) auto
    with False show ?thesis by (simp add: v1_def)
  qed
  then have "built_from ?G (v1\<lparr>postPadCountdown := postPadFrames v1\<rparr>)" by simp
  from built_from_flush_loop[OF z l this] \<open>built_from ?G v1\<close> show ?thesis
    by (simp add: fl)
qed

lemma built_from_constructor: "built_from F (vad_constructor opts m)"
  by (simp add: built_from_def vad_constructor_def Let_def)

section \<open>Evaluating runs on whole frames\<close>

lemma frames_of_concat:
  "\<forall>f \<in> set fs. length f = HOP_SIZE \<Longrightarrow>
     frames_of (concat fs @ r) = fs @ frames_of r \<and> remainder_of (concat fs @ r) = remainder_of r"
proof (induction fs)
  case Nil
  then show ?case by simp
next
  case (Cons f fs)
  then have l: "length f = HOP_SIZE" by simp
  then have ge: "HOP_SIZE \<le> length (f @ concat fs @ r)" by simp
  from Cons l show ?case
    by (simp add: frames_of_rec[OF ge] remainder_of_rec[OF ge])
qed

lemma processAudio_whole_frames:
  assumes "floatBuf v = []" "\<forall>f \<in> set fs. length f = HOP_SIZE"
  shows "processAudio tvp v (concat fs) = (foldl (processFrame tvp) v fs)\<lparr>floatBuf := []\<rparr>"
  using frames_of_concat[OF assms(2), of "[]"] assms(1)
  by (simp add: processAudio_frames frames_of_short remainder_of_short HOP_SIZE_pos)

lemma length_const_frame [simp]: "length (const_frame c) = HOP_SIZE"
  by (simp add: const_frame_def)

lemma classify_script [simp]: "classify (cls_script sc) v f = (module v + 1, sc (module v))"
  by (simp add: classify_def cls_script_def)

lemma classify_const [simp]: "classify (cls_const rc p flag) v f = (module v + 1, rc, p, flag)"
  by (simp add: cls_const_def)

lemma snd_convert_const_frame [simp]:
  "preEmphasis v \<le> 0 \<Longrightarrow> snd (convert_frame v (const_frame c)) = c"
  by (simp add: convert_frame_def const_frame_def HOP_SIZE_def)

lemma duration_of_frames:
  "js_round (real (n * HOP_SIZE) / real SAMPLE_RATE * 1000) = int (16 * n)"
proof -
  have "real (n * HOP_SIZE) / real SAMPLE_RATE * 1000 = real (16 * n)"
    by (simp add: HOP_SIZE_def SAMPLE_RATE_def)
  then show ?thesis
    by (simp add: js_round_def del: of_nat_mult)
qed

lemma close_segment_frames:
  assumes "\<forall>f \<in> set (currentSegment c). length f = HOP_SIZE"
  shows "close_segment c =
     (if real (16 * length (currentSegment c)) < minSpeechMs c
      then c\<lparr>inSpeech := False, currentSegment := [], postPadCountdown := 0,
             emitted := emitted c @ [VADMisfire]\<rparr>
      else c\<lparr>inSpeech := False, currentSegment := [], postPadCountdown := 0,
             emitted := emitted c @ [SpeechEnd (concat (currentSegment c))]\<rparr>)"
proof -
  have l: "length (concat (currentSegment c)) = length (currentSegment c) * HOP_SIZE"
    using assms by (rule length_concat_frames)
  have d: "real_of_int (js_round (real (length (concat (currentSegment c))) / real SAMPLE_RATE * 1000))
      = real (16 * length (currentSegment c))"
    unfolding l duration_of_frames by simp
  show ?thesis
    unfolding close_segment_def Let_def concatFrames_concat[OF assms] d
    by simp
qed

lemmas eval_defs = advanceState_def push_ring_def voice_frame_def silence_frame_def
  close_segment_frames gate_open_def Let_def smoothed_def

lemma length_num_frame [simp]: "length (num_frame c) = HOP_SIZE"
  by (simp add: num_frame_def)

lemma snd_convert_num_frame [simp]:
  "preEmphasis v \<le> 0 \<Longrightarrow> snd (convert_frame v (num_frame i)) = real i / 64"
  by (simp add: num_frame_def)

lemma v0_default: "vad_constructor default_opts (0::nat) =
     \<lparr>positiveSpeechThreshold = 3 / 5, negativeSpeechThreshold = 2 / 5,
        minSpeechFrames = 3, minSilenceFrames = 8, probSmoothing = 1 / 5,
        energyGateDb = None, preEmphasis = 0, preSpeechPadMs = 80,
        postSpeechPadMs = 160, minSpeechMs = 150, module = 0, floatBuf = [],
        lastSampleForPreEmph = 0, pSmoothed = 0, frameIndex = 0,
        inSpeech = False, voiceRun = 0, silenceRun = 0, prePadFrames = 5,
        postPadFrames = 10, ring = [], ringMax = 5, currentSegment = [],
        postPadCountdown = 0, emitted = []\<rparr>"
    by (simp add: vad_constructor_def default_opts_def nullish_def js_round_def
       SAMPLE_RATE_def HOP_SIZE_def Let_def)

lemma v0_short: "vad_constructor short_opts (0::nat) =
     \<lparr>positiveSpeechThreshold = 3 / 5, negativeSpeechThreshold = 2 / 5,
        minSpeechFrames = 1, minSilenceFrames = 1, probSmoothing = 1 / 5,
        energyGateDb = None, preEmphasis = 0, preSpeechPadMs = 0,
        postSpeechPadMs = 16, minSpeechMs = 0, module = 0, floatBuf = [],
        lastSampleForPreEmph = 0, pSmoothed = 0, frameIndex = 0,
        inSpeech = False, voiceRun = 0, silenceRun = 0, prePadFrames = 0,
        postPadFrames = 1, ring = [], ringMax = 0, currentSegment = [],
        postPadCountdown = 0, emitted = []\<rparr>"
  by (simp add: vad_constructor_def short_opts_def default_opts_def nullish_def js_round_def
       SAMPLE_RATE_def HOP_SIZE_def Let_def)

lemma v0_nopad: "vad_constructor nopad_opts (0::nat) =
     \<lparr>positiveSpeechThreshold = 3 / 5, negativeSpeechThreshold = 2 / 5,
        minSpeechFrames = 1, minSilenceFrames = 8, probSmoothing = 1 / 5,
        energyGateDb = None, preEmphasis = 0, preSpeechPadMs = 80,
        postSpeechPadMs = 0, minSpeechMs = 150, module = 0, floatBuf = [],
        lastSampleForPreEmph = 0, pSmoothed = 0, frameIndex = 0,
        inSpeech = False, voiceRun = 0, silenceRun = 0, prePadFrames = 5,
        postPadFrames = 0, ring = [], ringMax = 5, currentSegment = [],
        postPadCountdown = 0, emitted = []\<rparr>"
  by (simp add: vad_constructor_def nopad_opts_def default_opts_def nullish_def js_round_def
       SAMPLE_RATE_def HOP_SIZE_def Let_def)

lemma short_run:
  "emitted (processAudio (voice_then_silence 1) (vad_constructor short_opts 0)
      (concat [const_frame (1 / 2), const_frame 0]))
   = [SpeechStart, SpeechEnd (concat [const_frame (1 / 2), const_frame 0])]"
proof -
  have pa: "processAudio tvp (vad_constructor short_opts (0::nat))
        (concat [const_frame (1 / 2), const_frame 0])
      = (foldl (processFrame tvp) (vad_constructor short_opts 0)
          [const_frame (1 / 2), const_frame 0])\<lparr>floatBuf := []\<rparr>" for tvp
    by (rule processAudio_whole_frames) (simp_all add: v0_short)
  show ?thesis
    unfolding pa unfolding v0_short
    by (simp add: processFrame_success voice_then_silence_def eval_defs)
qed

section \<open>Provenance and length of the emitted segments\<close>

lemma reachable_built_from:
  "reachable tvp (vad_constructor opts m) v \<Longrightarrow> built_from {f. length f = HOP_SIZE} v"
proof (induction rule: reachable.induct)
  case reach_init
  show ?case by (rule built_from_constructor)
next
  case (reach_processAudio v chunk)
  have l: "\<forall>f \<in> {f. length f = HOP_SIZE}. length f = HOP_SIZE" by simp
  from built_from_processAudio[OF reach_processAudio.IH l, of chunk tvp]
  show ?case by (rule built_from_mono) (auto dest: length_frames_of)
next
  case (reach_flush v)
  have l: "\<forall>f \<in> {f. length f = HOP_SIZE}. length f = HOP_SIZE" by simp
  from built_from_flush[OF reach_flush.IH l, of tvp]
  show ?case by (rule built_from_mono) (auto dest: length_frames_of)
qed

text \<open>
  Claim C10. Every payload of \<^verbatim>\<open>onSpeechEnd\<close>, in every instance reached from a constructed
  one by \<^verbatim>\<open>processAudio\<close> calls (with any chunks) and \<^verbatim>\<open>flush\<close> calls, has a length that is a
  positive multiple of the frame size 256.
\<close>

theorem speech_end_length:
  assumes "reachable tvp (vad_constructor opts m) v" and "SpeechEnd seg \<in> set (emitted v)"
  shows "\<exists>k. 0 < k \<and> length seg = k * HOP_SIZE \<and> HOP_SIZE = 256"
proof -
  from reachable_built_from[OF assms(1)]
  have "\<forall>e \<in> set (emitted v). from_frames {f. length f = HOP_SIZE} e"
    by (simp add: built_from_def)
  with assms(2) have "from_frames {f. length f = HOP_SIZE} (SpeechEnd seg)"
    by blast
  then obtain fs where fs: "fs \<noteq> []" "set fs \<subseteq> {f. length f = HOP_SIZE}" "seg = concat fs"
    by auto
  then have "\<forall>f \<in> set fs. length f = HOP_SIZE" by blast
  then have "length (concat fs) = length fs * HOP_SIZE" by (rule length_concat_frames)
  with fs(1,3) have "0 < length fs \<and> length seg = length fs * HOP_SIZE \<and> HOP_SIZE = 256"
    by (simp add: HOP_SIZE_def)
  then show ?thesis by blast
qed

theorem speech_end_length_witness:
  "SpeechEnd (concat [const_frame (1 / 2), const_frame 0])
     \<in> set (emitted (processAudio (voice_then_silence 1) (vad_constructor short_opts 0)
          (concat [const_frame (1 / 2), const_frame 0])))
   \<and> (\<exists>k. 0 < k \<and> length (concat [const_frame (1 / 2), const_frame 0]) = k * HOP_SIZE
          \<and> HOP_SIZE = 256)"
proof -
  have r: "reachable (voice_then_silence 1) (vad_constructor short_opts 0)
     (processAudio (voice_then_silence 1) (vad_constructor short_opts 0)
          (concat [const_frame (1 / 2), const_frame 0]))"
    by (intro reach_processAudio reach_init)
  have m: "SpeechEnd (concat [const_frame (1 / 2), const_frame 0])
     \<in> set (emitted (processAudio (voice_then_silence 1) (vad_constructor short_opts 0)
          (concat [const_frame (1 / 2), const_frame 0])))"
    unfolding short_run by simp
  from speech_end_length[OF r m] m show ?thesis by blast
qed

section \<open>The fields that the state machine leaves alone\<close>

lemma push_ring_passive:
  "push_ring (with_passive v b m l q a) f = with_passive (push_ring v f) b m l q a"
  by (simp add: push_ring_def with_passive_def)

lemma voice_frame_passive:
  "voice_frame (with_passive v b m l q a) f = with_passive (voice_frame v f) b m l q a"
  by (simp add: voice_frame_def with_passive_def Let_def)

lemma silence_frame_passive:
  "silence_frame (with_passive v b m l q a) f = with_passive (silence_frame v f) b m l q a"
  by (simp add: silence_frame_def close_segment_def with_passive_def Let_def)

lemma frameIndex_passive:
  "(with_passive v b m l q a)\<lparr>frameIndex := n\<rparr> = with_passive (v\<lparr>frameIndex := n\<rparr>) b m l q a"
  "frameIndex (with_passive v b m l q a) = frameIndex v"
  by (simp_all add: with_passive_def)

lemma advanceState_passive:
  "advanceState (with_passive v b m l q a) x p f = with_passive (advanceState v x p' f) b m l q a"
  by (simp add: advanceState_def Let_def push_ring_passive voice_frame_passive
      silence_frame_passive frameIndex_passive)

lemma passive_push_ring:
  "floatBuf (push_ring v f) = floatBuf v" "module (push_ring v f) = module v"
  "lastSampleForPreEmph (push_ring v f) = lastSampleForPreEmph v"
  "pSmoothed (push_ring v f) = pSmoothed v" "preEmphasis (push_ring v f) = preEmphasis v"
  "frameIndex (push_ring v f) = frameIndex v"
  by (simp_all add: push_ring_def)

lemma passive_voice_frame:
  "floatBuf (voice_frame v f) = floatBuf v" "module (voice_frame v f) = module v"
  "lastSampleForPreEmph (voice_frame v f) = lastSampleForPreEmph v"
  "pSmoothed (voice_frame v f) = pSmoothed v" "preEmphasis (voice_frame v f) = preEmphasis v"
  "frameIndex (voice_frame v f) = frameIndex v"
  by (simp_all add: voice_frame_def Let_def)

lemma passive_silence_frame:
  "floatBuf (silence_frame v f) = floatBuf v" "module (silence_frame v f) = module v"
  "lastSampleForPreEmph (silence_frame v f) = lastSampleForPreEmph v"
  "pSmoothed (silence_frame v f) = pSmoothed v" "preEmphasis (silence_frame v f) = preEmphasis v"
  "frameIndex (silence_frame v f) = frameIndex v"
  by (simp_all add: silence_frame_def close_segment_def Let_def)

lemma passive_advanceState:
  "floatBuf (advanceState v x p f) = floatBuf v" "module (advanceState v x p f) = module v"
  "lastSampleForPreEmph (advanceState v x p f) = lastSampleForPreEmph v"
  "pSmoothed (advanceState v x p f) = pSmoothed v"
  "preEmphasis (advanceState v x p f) = preEmphasis v"
  "frameIndex (advanceState v x p f) = frameIndex v + 1"
  by (simp_all add: advanceState_def Let_def passive_push_ring passive_voice_frame
      passive_silence_frame)

lemma with_passive_same:
  "with_passive v (floatBuf v) (module v) (lastSampleForPreEmph v) (pSmoothed v) (preEmphasis v) = v"
  by (simp add: with_passive_def)

section \<open>Classifier errors\<close>

lemma processFrame_error_passive:
  assumes "fst (snd (classify tvp v f)) \<noteq> 0"
  shows "processFrame tvp v f =
     with_passive (advanceState v False 0 f) (floatBuf v) (fst (classify tvp v f))
       (snd (convert_frame v f)) (pSmoothed v) (preEmphasis v)"
proof -
  have "v\<lparr>lastSampleForPreEmph := snd (convert_frame v f), module := fst (classify tvp v f)\<rparr>
      = with_passive v (floatBuf v) (fst (classify tvp v f)) (snd (convert_frame v f))
          (pSmoothed v) (preEmphasis v)"
    by (simp add: with_passive_def)
  then show ?thesis
    unfolding processFrame_error[OF assms] by (simp only: advanceState_passive)
qed

lemma processFrame_success_passive:
  assumes "fst (snd (classify tvp v f)) = 0"
  shows "processFrame tvp v f =
     with_passive
       (advanceState v
          (snd (snd (snd (classify tvp v f))) = 1
            \<and> smoothed v (fst (snd (snd (classify tvp v f))))
               \<ge> (if inSpeech v then negativeSpeechThreshold v else positiveSpeechThreshold v)
            \<and> gate_open (energyGateDb v) f) 0 f)
       (floatBuf v) (fst (classify tvp v f)) (snd (convert_frame v f))
       (smoothed v (fst (snd (snd (classify tvp v f))))) (preEmphasis v)"
proof -
  have "v\<lparr>lastSampleForPreEmph := snd (convert_frame v f), module := fst (classify tvp v f),
          pSmoothed := q\<rparr>
      = with_passive v (floatBuf v) (fst (classify tvp v f)) (snd (convert_frame v f))
          q (preEmphasis v)" for q
    by (simp add: with_passive_def)
  then show ?thesis
    unfolding processFrame_success[OF assms] by (simp only: advanceState_passive)
qed

text \<open>
  Claim C3, as amended. On a classifier error the frame is handed to the state machine as a
  non-voice frame and the frame index advances by one, exactly as for a successful
  classification with probability 0 and flag 0, but the smoothed probability keeps its
  value, where the successful classification would store \<open>probSmoothing * pSmoothed\<close>: the
  two resulting instances are equal up to the field \<open>pSmoothed\<close>.
\<close>

theorem classifier_error_frame:
  assumes "fst (snd (classify tvp v f)) \<noteq> 0"
    and "classify tvp0 v f = (fst (classify tvp v f), 0, 0, 0)"
  shows "processFrame tvp v f = (processFrame tvp0 v f)\<lparr>pSmoothed := pSmoothed v\<rparr>
       \<and> pSmoothed (processFrame tvp v f) = pSmoothed v
       \<and> pSmoothed (processFrame tvp0 v f) = probSmoothing v * pSmoothed v
       \<and> frameIndex (processFrame tvp v f) = frameIndex v + 1"
proof -
  from assms(2) have z: "fst (snd (classify tvp0 v f)) = 0" by simp
  have e: "processFrame tvp v f =
     with_passive (advanceState v False 0 f) (floatBuf v) (fst (classify tvp v f))
       (snd (convert_frame v f)) (pSmoothed v) (preEmphasis v)"
    by (rule processFrame_error_passive[OF assms(1)])
  have s: "processFrame tvp0 v f =
     with_passive (advanceState v False 0 f) (floatBuf v) (fst (classify tvp v f))
       (snd (convert_frame v f)) (smoothed v 0) (preEmphasis v)"
    unfolding processFrame_success_passive[OF z] by (simp add: assms(2))
  show ?thesis
    unfolding e s
    by (simp add: with_passive_def smoothed_def passive_advanceState)
qed

lemma after_voice_eval:
  "after_voice = \<lparr>positiveSpeechThreshold = 3 / 5, negativeSpeechThreshold = 2 / 5,
        minSpeechFrames = 3, minSilenceFrames = 8, probSmoothing = 1 / 5,
        energyGateDb = None, preEmphasis = 0, preSpeechPadMs = 80,
        postSpeechPadMs = 160, minSpeechMs = 150, module = 1, floatBuf = [],
        lastSampleForPreEmph = 1 / 2, pSmoothed = 4 / 5, frameIndex = 1,
        inSpeech = False, voiceRun = 1, silenceRun = 0, prePadFrames = 5,
        postPadFrames = 10, ring = [const_frame (1 / 2)], ringMax = 5, currentSegment = [],
        postPadCountdown = 0, emitted = []\<rparr>"
  unfolding after_voice_def v0_default
  by (simp add: processFrame_success eval_defs)

theorem classifier_error_frame_witness:
  "processFrame (cls_const 1 0 0) after_voice (const_frame 0)
     = (processFrame (cls_const 0 0 0) after_voice (const_frame 0))\<lparr>pSmoothed := 4 / 5\<rparr>
   \<and> pSmoothed (processFrame (cls_const 1 0 0) after_voice (const_frame 0)) = 4 / 5
   \<and> pSmoothed (processFrame (cls_const 0 0 0) after_voice (const_frame 0)) = 4 / 25
   \<and> frameIndex (processFrame (cls_const 1 0 0) after_voice (const_frame 0)) = 2"
proof -
  have a: "fst (snd (classify (cls_const 1 0 0) after_voice (const_frame 0))) \<noteq> 0"
    by simp
  have b: "classify (cls_const 0 0 0) after_voice (const_frame 0)
      = (fst (classify (cls_const 1 0 0) after_voice (const_frame 0)), 0, 0, 0)"
    by simp
  have c: "pSmoothed after_voice = 4 / 5" "probSmoothing after_voice = 1 / 5"
    "frameIndex after_voice = 1"
    by (simp_all add: after_voice_eval)
  have ar: "(1 / 5 :: real) * (4 / 5) = 4 / 25" "(1::nat) + 1 = 2"
    by simp_all
  from classifier_error_frame[OF a b, unfolded c ar] show ?thesis .
qed

text \<open>
  The claim as stated fails: after one voice frame the smoothed probability is \<open>4/5\<close>; a
  classifier error on the next frame leaves it there, a successful classification with
  probability 0 and flag 0 stores \<open>4/25\<close>.
\<close>

theorem classifier_error_counterexample:
  "pSmoothed (processFrame (cls_const 1 0 0) after_voice (const_frame 0)) = 4 / 5
   \<and> pSmoothed (processFrame (cls_const 0 0 0) after_voice (const_frame 0)) = 4 / 25
   \<and> processFrame (cls_const 1 0 0) after_voice (const_frame 0)
       \<noteq> processFrame (cls_const 0 0 0) after_voice (const_frame 0)"
proof -
  have e: "pSmoothed (processFrame (cls_const 1 0 0) after_voice (const_frame 0)) = 4 / 5"
    by (simp add: processFrame_error passive_advanceState after_voice_eval)
  have s: "pSmoothed (processFrame (cls_const 0 0 0) after_voice (const_frame 0)) = 4 / 25"
    by (simp add: processFrame_success passive_advanceState smoothed_def after_voice_eval)
  have "processFrame (cls_const 1 0 0) after_voice (const_frame 0)
       \<noteq> processFrame (cls_const 0 0 0) after_voice (const_frame 0)"
  proof
    assume "processFrame (cls_const 1 0 0) after_voice (const_frame 0)
       = processFrame (cls_const 0 0 0) after_voice (const_frame 0)"
    then have "pSmoothed (processFrame (cls_const 1 0 0) after_voice (const_frame 0))
       = pSmoothed (processFrame (cls_const 0 0 0) after_voice (const_frame 0))"
      by simp
    with e s show False by simp
  qed
  with e s show ?thesis by simp
qed

section \<open>Finalization of a segment\<close>

lemma emitted_push_ring [simp]:
  "emitted (push_ring v f) = emitted v" "inSpeech (push_ring v f) = inSpeech v"
  "currentSegment (push_ring v f) = currentSegment v"
  "postPadCountdown (push_ring v f) = postPadCountdown v"
  "postPadFrames (push_ring v f) = postPadFrames v"
  "silenceRun (push_ring v f) = silenceRun v" "voiceRun (push_ring v f) = voiceRun v"
  "minSilenceFrames (push_ring v f) = minSilenceFrames v"
  "minSpeechFrames (push_ring v f) = minSpeechFrames v"
  "minSpeechMs (push_ring v f) = minSpeechMs v"
  by (simp_all add: push_ring_def)

lemma close_segment_emits:
  "emitted (close_segment c) = emitted c @ [terminal_event c (currentSegment c)]
   \<and> \<not> inSpeech (close_segment c) \<and> currentSegment (close_segment c) = []
   \<and> postPadCountdown (close_segment c) = 0"
  by (simp add: close_segment_def terminal_event_def Let_def SAMPLE_RATE_def)

lemma silence_frame_finalizes:
  assumes "inSpeech v" "minSilenceFrames v \<le> real (silenceRun v + 1)" "countdown_after v \<le> 0"
  shows "silence_frame v f =
    close_segment (v\<lparr>silenceRun := silenceRun v + 1, voiceRun := 0,
       currentSegment := currentSegment v @ [f], postPadCountdown := countdown_after v\<rparr>)"
  using assms by (simp add: silence_frame_def countdown_after_def Let_def split: if_splits)

lemma silence_frame_continues:
  assumes "\<not> (inSpeech v \<and> minSilenceFrames v \<le> real (silenceRun v + 1) \<and> countdown_after v \<le> 0)"
  shows "emitted (silence_frame v f) = emitted v \<and> inSpeech (silence_frame v f) = inSpeech v"
  using assms by (auto simp: silence_frame_def countdown_after_def Let_def)

lemma finalizeWithFrame_finalizes:
  assumes "countdown_after v \<le> 0"
  shows "finalizeWithFrame v f True =
    close_segment (v\<lparr>currentSegment := currentSegment v @ [f],
       postPadCountdown := countdown_after v\<rparr>)"
  using assms by (simp add: finalizeWithFrame_def countdown_after_def Let_def split: if_splits)

lemma finalizeWithFrame_continues:
  assumes "\<not> countdown_after v \<le> 0"
  shows "emitted (finalizeWithFrame v f True) = emitted v
    \<and> inSpeech (finalizeWithFrame v f True) = inSpeech v"
  using assms by (auto simp: finalizeWithFrame_def countdown_after_def Let_def)

lemma terminal_event_upd [simp]:
  "terminal_event (v\<lparr>silenceRun := a1\<rparr>) fs = terminal_event v fs"
  "terminal_event (v\<lparr>voiceRun := a2\<rparr>) fs = terminal_event v fs"
  "terminal_event (v\<lparr>currentSegment := a3\<rparr>) fs = terminal_event v fs"
  "terminal_event (v\<lparr>postPadCountdown := a4\<rparr>) fs = terminal_event v fs"
  "terminal_event (push_ring v f) fs = terminal_event v fs"
  by (simp_all add: terminal_event_def)

lemma countdown_after_push_ring [simp]: "countdown_after (push_ring v f) = countdown_after v"
  by (simp add: countdown_after_def)

text \<open>
  Claim C8. A segment is finalized at two places: in \<^verbatim>\<open>_advanceState\<close> on a non-voice frame
  in speech once the silence run has reached \<^verbatim>\<open>minSilenceFrames\<close> and the countdown is used
  up, and in \<^verbatim>\<open>_finalizeWithFrame\<close> once the countdown is used up. At both, exactly one
  event is appended to the log: \<open>terminal_event\<close> of the accumulated frames, which is
  \<^verbatim>\<open>onVADMisfire\<close> if and only if \<open>round (sampleCount / 16000 * 1000) < minSpeechMs\<close> and
  otherwise \<^verbatim>\<open>onSpeechEnd\<close> with the whole accumulated audio; the instance leaves speech and
  the segment is cleared. Without a finalization neither function emits a terminal event,
  and a voice frame emits at most \<^verbatim>\<open>onSpeechStart\<close>.
\<close>

theorem finalization_emits_exactly_one:
  "(inSpeech v \<and> minSilenceFrames v \<le> real (silenceRun v + 1) \<and> countdown_after v \<le> 0 \<longrightarrow>
      emitted (advanceState v False p f) = emitted v @ [terminal_event v (currentSegment v @ [f])]
      \<and> \<not> inSpeech (advanceState v False p f) \<and> currentSegment (advanceState v False p f) = [])
   \<and> (\<not> (inSpeech v \<and> minSilenceFrames v \<le> real (silenceRun v + 1) \<and> countdown_after v \<le> 0) \<longrightarrow>
      emitted (advanceState v False p f) = emitted v
      \<and> inSpeech (advanceState v False p f) = inSpeech v)
   \<and> (countdown_after v \<le> 0 \<longrightarrow>
      emitted (finalizeWithFrame v f True) = emitted v @ [terminal_event v (currentSegment v @ [f])]
      \<and> \<not> inSpeech (finalizeWithFrame v f True) \<and> currentSegment (finalizeWithFrame v f True) = [])
   \<and> (\<not> countdown_after v \<le> 0 \<longrightarrow>
      emitted (finalizeWithFrame v f True) = emitted v
      \<and> inSpeech (finalizeWithFrame v f True) = inSpeech v)
   \<and> (emitted (advanceState v True p f) = emitted v
        \<or> emitted (advanceState v True p f) = emitted v @ [SpeechStart])
   \<and> (terminal_event v fs = VADMisfire \<longleftrightarrow>
        real_of_int (js_round (real (length (concatFrames fs)) / 16000 * 1000)) < minSpeechMs v)
   \<and> (terminal_event v fs = SpeechEnd (concatFrames fs) \<longleftrightarrow>
        \<not> real_of_int (js_round (real (length (concatFrames fs)) / 16000 * 1000)) < minSpeechMs v)"
proof -
  have g: "emitted (advanceState v True p f) = emitted v
        \<or> emitted (advanceState v True p f) = emitted v @ [SpeechStart]"
    by (simp add: advanceState_def voice_frame_def Let_def)
  have a: "inSpeech v \<and> minSilenceFrames v \<le> real (silenceRun v + 1) \<and> countdown_after v \<le> 0 \<longrightarrow>
      emitted (advanceState v False p f) = emitted v @ [terminal_event v (currentSegment v @ [f])]
      \<and> \<not> inSpeech (advanceState v False p f) \<and> currentSegment (advanceState v False p f) = []"
  proof
    assume h: "inSpeech v \<and> minSilenceFrames v \<le> real (silenceRun v + 1) \<and> countdown_after v \<le> 0"
    then have "silence_frame (push_ring v f) f =
      close_segment ((push_ring v f)\<lparr>silenceRun := silenceRun v + 1, voiceRun := 0,
       currentSegment := currentSegment v @ [f], postPadCountdown := countdown_after v\<rparr>)"
      using silence_frame_finalizes[of "push_ring v f" f] by simp
    then show "emitted (advanceState v False p f) = emitted v @ [terminal_event v (currentSegment v @ [f])]
      \<and> \<not> inSpeech (advanceState v False p f) \<and> currentSegment (advanceState v False p f) = []"
      by (simp add: advanceState_def Let_def close_segment_emits)
  qed
  have b: "\<not> (inSpeech v \<and> minSilenceFrames v \<le> real (silenceRun v + 1) \<and> countdown_after v \<le> 0) \<longrightarrow>
      emitted (advanceState v False p f) = emitted v
      \<and> inSpeech (advanceState v False p f) = inSpeech v"
    using silence_frame_continues[of "push_ring v f" f]
    by (simp add: advanceState_def Let_def)
  have c: "countdown_after v \<le> 0 \<longrightarrow>
      emitted (finalizeWithFrame v f True) = emitted v @ [terminal_event v (currentSegment v @ [f])]
      \<and> \<not> inSpeech (finalizeWithFrame v f True) \<and> currentSegment (finalizeWithFrame v f True) = []"
    by (simp add: finalizeWithFrame_finalizes close_segment_emits)
  have d: "\<not> countdown_after v \<le> 0 \<longrightarrow>
      emitted (finalizeWithFrame v f True) = emitted v
      \<and> inSpeech (finalizeWithFrame v f True) = inSpeech v"
    using finalizeWithFrame_continues[of v f] by simp
  have e: "(terminal_event v fs = VADMisfire \<longleftrightarrow>
        real_of_int (js_round (real (length (concatFrames fs)) / 16000 * 1000)) < minSpeechMs v)"
    "(terminal_event v fs = SpeechEnd (concatFrames fs) \<longleftrightarrow>
        \<not> real_of_int (js_round (real (length (concatFrames fs)) / 16000 * 1000)) < minSpeechMs v)"
    by (simp_all add: terminal_event_def)
  from a b c d e g show ?thesis by blast
qed

lemma terminal_event_frames:
  assumes "\<forall>f \<in> set fs. length f = HOP_SIZE"
  shows "terminal_event v fs =
     (if real (16 * length fs) < minSpeechMs v then VADMisfire else SpeechEnd (concat fs))"
proof -
  have l: "length (concat fs) = length fs * HOP_SIZE"
    using assms by (rule length_concat_frames)
  have "real_of_int (js_round (real (length fs * HOP_SIZE) / 16000 * 1000)) = real (16 * length fs)"
    using duration_of_frames[of "length fs"] by (simp add: SAMPLE_RATE_def)
  then show ?thesis
    unfolding terminal_event_def concatFrames_concat[OF assms] l by simp
qed

lemma short_in_speech_eval:
  "short_in_speech = \<lparr>positiveSpeechThreshold = 3 / 5, negativeSpeechThreshold = 2 / 5,
        minSpeechFrames = 1, minSilenceFrames = 1, probSmoothing = 1 / 5,
        energyGateDb = None, preEmphasis = 0, preSpeechPadMs = 0,
        postSpeechPadMs = 16, minSpeechMs = 0, module = 1, floatBuf = [],
        lastSampleForPreEmph = 1 / 2, pSmoothed = 4 / 5, frameIndex = 1,
        inSpeech = True, voiceRun = 1, silenceRun = 0, prePadFrames = 0,
        postPadFrames = 1, ring = [], ringMax = 0, currentSegment = [const_frame (1 / 2)],
        postPadCountdown = 0, emitted = [SpeechStart]\<rparr>"
  unfolding short_in_speech_def v0_short
  by (simp add: processFrame_success eval_defs)

theorem finalization_emits_exactly_one_witness:
  "emitted (advanceState short_in_speech False 0 (const_frame 0))
     = [SpeechStart, SpeechEnd (concat [const_frame (1 / 2), const_frame 0])]
   \<and> emitted (finalizeWithFrame short_in_speech (const_frame 0) True)
     = [SpeechStart, SpeechEnd (concat [const_frame (1 / 2), const_frame 0])]
   \<and> emitted (advanceState after_voice False 0 (const_frame 0)) = emitted after_voice
   \<and> terminal_event after_voice [const_frame (1 / 2), const_frame 0] = VADMisfire"
proof -
  have h: "inSpeech short_in_speech
      \<and> minSilenceFrames short_in_speech \<le> real (silenceRun short_in_speech + 1)
      \<and> countdown_after short_in_speech \<le> 0"
    by (simp add: short_in_speech_eval countdown_after_def)
  have n: "\<not> (inSpeech after_voice
      \<and> minSilenceFrames after_voice \<le> real (silenceRun after_voice + 1)
      \<and> countdown_after after_voice \<le> 0)"
    by (simp add: after_voice_eval)
  have t: "terminal_event short_in_speech (currentSegment short_in_speech @ [const_frame 0])
      = SpeechEnd (concat [const_frame (1 / 2), const_frame 0])"
    by (simp add: short_in_speech_eval terminal_event_frames)
  have e: "emitted short_in_speech = [SpeechStart]"
    by (simp add: short_in_speech_eval)
  have d: "real_of_int (js_round (real (length (concatFrames [const_frame (1 / 2), const_frame 0]))
       / 16000 * 1000)) < minSpeechMs after_voice"
    using duration_of_frames[of 2]
    by (simp add: concatFrames_concat SAMPLE_RATE_def after_voice_eval)
  from finalization_emits_exactly_one[of short_in_speech 0 "const_frame 0"] h t e
  have 1: "emitted (advanceState short_in_speech False 0 (const_frame 0))
     = [SpeechStart, SpeechEnd (concat [const_frame (1 / 2), const_frame 0])]"
    "emitted (finalizeWithFrame short_in_speech (const_frame 0) True)
     = [SpeechStart, SpeechEnd (concat [const_frame (1 / 2), const_frame 0])]"
    by simp_all
  from finalization_emits_exactly_one[of after_voice 0 "const_frame 0"
      "[const_frame (1 / 2), const_frame 0]"] n d
  have 2: "emitted (advanceState after_voice False 0 (const_frame 0)) = emitted after_voice"
    "terminal_event after_voice [const_frame (1 / 2), const_frame 0] = VADMisfire"
    by simp_all
  from 1 2 show ?thesis by simp
qed

section \<open>Speech start at the threshold\<close>











section \<open>Flushing an open segment\<close>

lemma flush_without_post_pad:
  assumes "inSpeech v" "floatBuf v = []" "postPadFrames v \<le> 0"
  shows "flush tvp v = v\<lparr>postPadCountdown := postPadFrames v\<rparr>"
  using assms by (simp add: flush_def Let_def flush_loop_stop)

lemma flush_loop_emits:
  "0 < postPadCountdown v \<Longrightarrow>
     \<exists>fs. emitted (flush_loop v) = emitted v @ [terminal_event v fs]"
proof (induction v rule: flush_loop.induct)
  case (1 v)
  let ?z = "replicate HOP_SIZE (0::real)"
  let ?w = "finalizeWithFrame v ?z True"
  from 1(2) have step: "flush_loop v = flush_loop ?w" by (rule flush_loop_step)
  from 1(2) have ca: "countdown_after v = postPadCountdown v - 1"
    by (simp add: countdown_after_def)
  show ?case
  proof (cases "postPadCountdown v = 1")
    case True
    with ca have c0: "countdown_after v \<le> 0" by simp
    from True have "postPadCountdown ?w = 0"
      using finalizeWithFrame_countdown[of v ?z] by simp
    then have "flush_loop ?w = ?w" by (simp add: flush_loop_stop)
    moreover have "emitted ?w = emitted v @ [terminal_event v (currentSegment v @ [?z])]"
      by (simp add: finalizeWithFrame_finalizes[OF c0] close_segment_emits)
    ultimately show ?thesis using step by auto
  next
    case False
    with 1(2) ca have c1: "\<not> countdown_after v \<le> 0" by simp
    from False 1(2) have p: "0 < postPadCountdown ?w"
      using finalizeWithFrame_countdown[of v ?z] by simp
    from 1(1)[OF 1(2) p] obtain fs where
      "emitted (flush_loop ?w) = emitted ?w @ [terminal_event ?w fs]" by blast
    moreover have "terminal_event ?w fs = terminal_event v fs"
      using config_finalizeWithFrame[of v ?z True]
      by (simp add: terminal_event_def config_of_def)
    moreover from finalizeWithFrame_continues[OF c1] have "emitted ?w = emitted v" by simp
    ultimately show ?thesis using step by auto
  qed
qed

lemma flush_with_post_pad:
  assumes "inSpeech v" "floatBuf v = []" "0 < postPadFrames v"
  shows "\<not> inSpeech (flush tvp v) \<and> (\<exists>fs. emitted (flush tvp v) = emitted v @ [terminal_event v fs])"
proof -
  let ?x = "v\<lparr>postPadCountdown := postPadFrames v\<rparr>"
  from assms have fl: "flush tvp v = flush_loop ?x" by (simp add: flush_def Let_def)
  from assms(3) have p: "0 < postPadCountdown ?x" by simp
  from flush_loop_closes[OF p] flush_loop_emits[OF p] fl show ?thesis by simp
qed

lemma nopad_in_speech_eval:
  "nopad_in_speech = \<lparr>positiveSpeechThreshold = 3 / 5, negativeSpeechThreshold = 2 / 5,
        minSpeechFrames = 1, minSilenceFrames = 8, probSmoothing = 1 / 5,
        energyGateDb = None, preEmphasis = 0, preSpeechPadMs = 80,
        postSpeechPadMs = 0, minSpeechMs = 150, module = 1, floatBuf = [],
        lastSampleForPreEmph = 1 / 2, pSmoothed = 4 / 5, frameIndex = 1,
        inSpeech = True, voiceRun = 1, silenceRun = 0, prePadFrames = 5,
        postPadFrames = 0, ring = [const_frame (1 / 2)], ringMax = 5,
        currentSegment = [const_frame (1 / 2), const_frame (1 / 2)],
        postPadCountdown = 0, emitted = [SpeechStart]\<rparr>"
proof -
  have pa: "processAudio tvp (vad_constructor nopad_opts (0::nat)) (concat [const_frame (1 / 2)])
      = (foldl (processFrame tvp) (vad_constructor nopad_opts 0) [const_frame (1 / 2)])
          \<lparr>floatBuf := []\<rparr>" for tvp
    by (rule processAudio_whole_frames) (simp_all add: v0_nopad)
  show ?thesis
    unfolding nopad_in_speech_def pa unfolding v0_nopad
    by (simp add: processFrame_success eval_defs)
qed

text \<open>
  Claim C2 at its failing input. With \<^verbatim>\<open>postSpeechPadMs = 0\<close> the instance is in speech with an
  open segment after one voice frame; \<^verbatim>\<open>flush\<close> sets the countdown to 0 post-pad frames, its
  loop does not run, and the instance comes back unchanged: still in speech, the segment
  still open, no terminal event in the log.
\<close>

theorem flush_leaves_segment_open:
  "postPadFrames nopad_in_speech = 0 \<and> inSpeech nopad_in_speech
   \<and> currentSegment nopad_in_speech = [const_frame (1 / 2), const_frame (1 / 2)]
   \<and> emitted nopad_in_speech = [SpeechStart]
   \<and> flush (cls_const 0 0 0) nopad_in_speech = nopad_in_speech
   \<and> inSpeech (flush (cls_const 0 0 0) nopad_in_speech)
   \<and> emitted (flush (cls_const 0 0 0) nopad_in_speech) = [SpeechStart]"
proof -
  have f: "inSpeech nopad_in_speech" "floatBuf nopad_in_speech = []"
    "postPadFrames nopad_in_speech \<le> 0"
    by (simp_all add: nopad_in_speech_eval)
  have "flush (cls_const 0 0 0) nopad_in_speech
      = nopad_in_speech\<lparr>postPadCountdown := postPadFrames nopad_in_speech\<rparr>"
    by (rule flush_without_post_pad[OF f])
  also have "\<dots> = nopad_in_speech" by (simp add: nopad_in_speech_eval)
  finally have fl: "flush (cls_const 0 0 0) nopad_in_speech = nopad_in_speech" .
  show ?thesis
    unfolding fl by (simp add: nopad_in_speech_eval)
qed

section \<open>The reference scenario of the specification\<close>

lemma reference_run_initial:
  "emitted (processAudio (voice_then_silence 23) (vad_constructor default_opts 0)
       (concat onset_frames)) = [SpeechStart]
   \<and> ring (processAudio (voice_then_silence 23) (vad_constructor default_opts 0)
       (concat onset_frames)) = onset_frames
   \<and> emitted (processAudio (voice_then_silence 23) (vad_constructor default_opts 0)
       (concat reference_frames)) = [SpeechStart, SpeechEnd (concat reference_segment_frames)]
   \<and> length reference_segment_frames = 34
   \<and> length (concat reference_segment_frames) = 8704
   \<and> (3 + 20 + 10) * HOP_SIZE = 8448"
proof -
  have pa: "processAudio tvp (vad_constructor default_opts (0::nat)) (concat fs)
      = (foldl (processFrame tvp) (vad_constructor default_opts 0) fs)\<lparr>floatBuf := []\<rparr>"
    if "\<forall>f \<in> set fs. length f = HOP_SIZE" for tvp fs
    using _ that by (rule processAudio_whole_frames) (simp add: v0_default)
  have lo: "\<forall>f \<in> set onset_frames. length f = HOP_SIZE"
    by (simp add: onset_frames_def)
  have lr: "\<forall>f \<in> set reference_frames. length f = HOP_SIZE"
    by (simp add: reference_frames_def)
  have ls: "\<forall>f \<in> set reference_segment_frames. length f = HOP_SIZE"
    by (simp add: reference_segment_frames_def)
  have 1: "emitted (processAudio (voice_then_silence 23) (vad_constructor default_opts 0)
       (concat onset_frames)) = [SpeechStart]"
    "ring (processAudio (voice_then_silence 23) (vad_constructor default_opts 0)
       (concat onset_frames)) = onset_frames"
    unfolding pa[OF lo] unfolding v0_default onset_frames_def
    by (simp_all add: processFrame_success voice_then_silence_def eval_defs)
  have 2: "emitted (processAudio (voice_then_silence 23) (vad_constructor default_opts 0)
       (concat reference_frames)) = [SpeechStart, SpeechEnd (concat reference_segment_frames)]"
    unfolding pa[OF lr] unfolding v0_default reference_frames_def reference_segment_frames_def
    by (simp add: processFrame_success voice_then_silence_def eval_defs)
  have 3: "length reference_segment_frames = 34"
    by (simp add: reference_segment_frames_def)
  have 4: "length (concat reference_segment_frames) = 8704"
    unfolding length_concat_frames[OF ls] 3 by (simp add: HOP_SIZE_def)
  have 5: "(3 + 20 + 10) * HOP_SIZE = 8448" by (simp add: HOP_SIZE_def)
  from 1 2 3 4 5 show ?thesis by blast
qed

lemma reference_run_padded:
  "emitted (processAudio (silence_voice_silence 5 28) (vad_constructor default_opts 0)
       (concat padded_onset_frames)) = [SpeechStart]
   \<and> ring (processAudio (silence_voice_silence 5 28) (vad_constructor default_opts 0)
       (concat padded_onset_frames)) = map num_frame [3..<8]
   \<and> emitted (processAudio (silence_voice_silence 5 28) (vad_constructor default_opts 0)
       (concat padded_frames)) = [SpeechStart, SpeechEnd (concat padded_segment_frames)]
   \<and> length padded_segment_frames = 36
   \<and> length (concat padded_segment_frames) = 9216
   \<and> (5 + 20 + 10) * HOP_SIZE = 8960"
proof -
  have pa: "processAudio tvp (vad_constructor default_opts (0::nat)) (concat fs)
      = (foldl (processFrame tvp) (vad_constructor default_opts 0) fs)\<lparr>floatBuf := []\<rparr>"
    if "\<forall>f \<in> set fs. length f = HOP_SIZE" for tvp fs
    using _ that by (rule processAudio_whole_frames) (simp add: v0_default)
  have lo: "\<forall>f \<in> set padded_onset_frames. length f = HOP_SIZE"
    by (simp add: padded_onset_frames_def)
  have lr: "\<forall>f \<in> set padded_frames. length f = HOP_SIZE"
    by (simp add: padded_frames_def)
  have ls: "\<forall>f \<in> set padded_segment_frames. length f = HOP_SIZE"
    by (simp add: padded_segment_frames_def)
  have 1: "emitted (processAudio (silence_voice_silence 5 28) (vad_constructor default_opts 0)
       (concat padded_onset_frames)) = [SpeechStart]"
    "ring (processAudio (silence_voice_silence 5 28) (vad_constructor default_opts 0)
       (concat padded_onset_frames)) = map num_frame [3..<8]"
    unfolding pa[OF lo] unfolding v0_default padded_onset_frames_def
    by (simp_all add: processFrame_success silence_voice_silence_def eval_defs)
  have 2: "emitted (processAudio (silence_voice_silence 5 28) (vad_constructor default_opts 0)
       (concat padded_frames)) = [SpeechStart, SpeechEnd (concat padded_segment_frames)]"
    unfolding pa[OF lr] unfolding v0_default padded_frames_def padded_segment_frames_def
    by (simp add: processFrame_success silence_voice_silence_def eval_defs)
  have 3: "length padded_segment_frames = 36"
    by (simp add: padded_segment_frames_def)
  have 4: "length (concat padded_segment_frames) = 9216"
    unfolding length_concat_frames[OF ls] 3 by (simp add: HOP_SIZE_def)
  have 5: "(5 + 20 + 10) * HOP_SIZE = 8960" by (simp add: HOP_SIZE_def)
  from 1 2 3 4 5 show ?thesis by blast
qed

text \<open>
  Claim C1 at the reference scenario, from the initial state and after 5 leading silent
  frames. When \<^verbatim>\<open>onSpeechStart\<close> is invoked the ring buffer holds the pre-pad frames available
  (3 from the initial state, 5 after the leading silence), the frame that starts speech
  among them. After the whole stream the log is one \<^verbatim>\<open>onSpeechStart\<close> and one \<^verbatim>\<open>onSpeechEnd\<close>,
  whose segment holds 34 frames (8704 samples), not \<open>3 + 20 + 10 = 33\<close> frames (8448
  samples), respectively 36 frames (9216 samples), not \<open>5 + 20 + 10 = 35\<close> frames (8960
  samples): the segment is seeded from the ring buffer, which already holds the frame that
  starts speech, and this frame is then appended once more.
\<close>

theorem reference_scenario_segment:
  "emitted (processAudio (voice_then_silence 23) (vad_constructor default_opts 0)
       (concat onset_frames)) = [SpeechStart]
   \<and> ring (processAudio (voice_then_silence 23) (vad_constructor default_opts 0)
       (concat onset_frames)) = onset_frames
   \<and> emitted (processAudio (voice_then_silence 23) (vad_constructor default_opts 0)
       (concat reference_frames)) = [SpeechStart, SpeechEnd (concat reference_segment_frames)]
   \<and> length (concat reference_segment_frames) = 34 * HOP_SIZE
   \<and> 34 * HOP_SIZE = 8704 \<and> (3 + 20 + 10) * HOP_SIZE = 8448
   \<and> emitted (processAudio (silence_voice_silence 5 28) (vad_constructor default_opts 0)
       (concat padded_onset_frames)) = [SpeechStart]
   \<and> ring (processAudio (silence_voice_silence 5 28) (vad_constructor default_opts 0)
       (concat padded_onset_frames)) = map num_frame [3..<8]
   \<and> emitted (processAudio (silence_voice_silence 5 28) (vad_constructor default_opts 0)
       (concat padded_frames)) = [SpeechStart, SpeechEnd (concat padded_segment_frames)]
   \<and> length (concat padded_segment_frames) = 36 * HOP_SIZE
   \<and> 36 * HOP_SIZE = 9216 \<and> (5 + 20 + 10) * HOP_SIZE = 8960"
proof -
  have h: "34 * HOP_SIZE = 8704" "36 * HOP_SIZE = 9216"
    by (simp_all add: HOP_SIZE_def)
  from reference_run_initial reference_run_padded h show ?thesis
    by (simp only: simp_thms)
qed

section \<open>Pre-emphasis and the emitted audio\<close>

lemma reachable_floatBuf:
  "reachable tvp (vad_constructor opts m) v \<Longrightarrow> length (floatBuf v) < HOP_SIZE"
proof (induction rule: reachable.induct)
  case reach_init
  show ?case by (simp add: vad_constructor_def Let_def HOP_SIZE_pos)
next
  case (reach_processAudio v chunk)
  show ?case by (simp add: processAudio_frames length_remainder_of)
next
  case (reach_flush v)
  show ?case by (simp add: flush_floatBuf HOP_SIZE_pos)
qed

text \<open>The frame that \<^verbatim>\<open>flush\<close> processes for \<open>k\<close> left-over samples: \<^verbatim>\<open>processAudio(pad)\<close> puts the
  buffer, which still holds the left-over samples, in front of the padded copy.\<close>

lemma flush_frame:
  assumes "0 < length (floatBuf v)" "length (floatBuf v) < HOP_SIZE"
  shows "frames_of (floatBuf v @ flush_pad v)
     = [take HOP_SIZE (floatBuf v @ floatBuf v @ replicate (HOP_SIZE - length (floatBuf v)) 0)]"
proof -
  let ?b = "floatBuf v"
  have p: "flush_pad v = ?b @ replicate (HOP_SIZE - length ?b) 0"
    using assms(2) by (simp add: flush_pad_def set_at_def)
  have ge: "HOP_SIZE \<le> length (?b @ flush_pad v)" using assms(2) by (simp add: p)
  have sh: "length (drop HOP_SIZE (?b @ flush_pad v)) < HOP_SIZE"
    using assms by (simp add: p)
  show ?thesis
    unfolding frames_of_rec[OF ge] frames_of_short[OF sh] by (simp add: p)
qed

lemma snd_preemph_loop: "snd (preemph_loop a prev xs) = (if xs = [] then prev else last xs)"
  by (induction xs arbitrary: prev) (simp_all add: Let_def)

lemma snd_convert_frame:
  assumes "length f = HOP_SIZE"
  shows "snd (convert_frame v f) = last f"
proof -
  from assms HOP_SIZE_pos have ne: "f \<noteq> []" by auto
  then have "f ! (HOP_SIZE - 1) = last f" using assms by (simp add: last_conv_nth)
  with ne show ?thesis by (simp add: convert_frame_def snd_preemph_loop)
qed

lemma last_const_frame [simp]: "last (const_frame c) = c"
  by (simp add: const_frame_def HOP_SIZE_def)

lemma with_passive_twice:
  "with_passive (with_passive v b m l q a) b' m' l' q' a' = with_passive v b' m' l' q' a'"
  by (simp add: with_passive_def)

text \<open>
  A frame acts on the state machine as \<^verbatim>\<open>_advanceState\<close> on the raw frame, whatever the
  pre-emphasis coefficient is; the coefficient reaches only the classifier's input and so
  the voice decision, the classifier state and the carried sample.
\<close>

lemma processFrame_raw:
  "\<exists>b m l q. processFrame tvp (v\<lparr>preEmphasis := a\<rparr>) f
      = with_passive (advanceState v b 0 f) (floatBuf v) m l q a"
proof -
  let ?v = "v\<lparr>preEmphasis := a\<rparr>"
  have w: "?v = with_passive v (floatBuf v) (module v) (lastSampleForPreEmph v) (pSmoothed v) a"
    by (simp add: with_passive_def)
  have adv: "advanceState ?v b 0 f
      = with_passive (advanceState v b 0 f) (floatBuf v) (module v) (lastSampleForPreEmph v)
          (pSmoothed v) a" for b
    by (subst w) (rule advanceState_passive)
  have fb: "floatBuf ?v = floatBuf v" "preEmphasis ?v = a" by simp_all
  show ?thesis
  proof (cases "fst (snd (classify tvp ?v f)) \<noteq> 0")
    case True
    show ?thesis
      unfolding processFrame_error_passive[OF True] adv with_passive_twice fb by blast
  next
    case False
    then have z: "fst (snd (classify tvp ?v f)) = 0" by simp
    show ?thesis
      unfolding processFrame_success_passive[OF z] adv with_passive_twice fb by blast
  qed
qed

lemma short_run_preemph:
  "emitted (processAudio (voice_then_silence 1)
      ((vad_constructor short_opts 0)\<lparr>preEmphasis := 97 / 100\<rparr>)
      (concat [const_frame (1 / 2), const_frame 0]))
   = [SpeechStart, SpeechEnd (concat [const_frame (1 / 2), const_frame 0])]"
proof -
  have pa: "processAudio tvp ((vad_constructor short_opts (0::nat))\<lparr>preEmphasis := 97 / 100\<rparr>)
        (concat [const_frame (1 / 2), const_frame 0])
      = (foldl (processFrame tvp) ((vad_constructor short_opts 0)\<lparr>preEmphasis := 97 / 100\<rparr>)
          [const_frame (1 / 2), const_frame 0])\<lparr>floatBuf := []\<rparr>" for tvp
    by (rule processAudio_whole_frames) (simp_all add: v0_short)
  show ?thesis
    unfolding pa unfolding v0_short
    by (simp add: processFrame_success voice_then_silence_def eval_defs snd_convert_frame)
qed

text \<open>
  For every pre-emphasis coefficient \<open>a\<close>, a frame acts on the state machine as
  \<^verbatim>\<open>_advanceState\<close> on the raw frame, the coefficient reaching only the classifier's side (the
  voice decision, the classifier state, the carried sample and the smoothed probability).
  If the ring buffer, the open segment and the payloads emitted so far are built from
  the frames of \<open>F\<close>, then after \<^verbatim>\<open>processAudio\<close> they are built from \<open>F\<close> and the windows cut
  from the buffered samples followed by the chunk, and after \<^verbatim>\<open>flush\<close> from \<open>F\<close>, the window
  cut from the left-over samples followed by the padded copy of them, and the silent frame of
  zeros. The payloads never hold the filtered copy that the classifier receives; this says
  nothing on how often or in which order a window stands in a payload.
\<close>

lemma raw_frame_provenance:
  assumes "built_from F v" and "\<forall>f \<in> F. length f = HOP_SIZE"
  shows "(\<exists>b m l q. processFrame tvp (v\<lparr>preEmphasis := a\<rparr>) f
            = with_passive (advanceState v b 0 f) (floatBuf v) m l q a)
       \<and> built_from (F \<union> set (frames_of (floatBuf v @ chunk)))
           (processAudio tvp (v\<lparr>preEmphasis := a\<rparr>) chunk)
       \<and> built_from (F \<union> set (frames_of (floatBuf v @ flush_pad v)) \<union> {replicate HOP_SIZE 0})
           (flush tvp (v\<lparr>preEmphasis := a\<rparr>))"
proof -
  let ?v = "v\<lparr>preEmphasis := a\<rparr>"
  have b: "built_from F ?v" using assms(1) by (simp add: built_from_def)
  have "floatBuf ?v = floatBuf v" "flush_pad ?v = flush_pad v"
    by (simp_all add: flush_pad_def)
  with built_from_processAudio[OF b assms(2), of chunk tvp] built_from_flush[OF b assms(2), of tvp]
    processFrame_raw[where tvp = tvp and v = v and a = a and f = f]
  show ?thesis by simp
qed

lemma raw_frame_provenance_example:
  "built_from ({} \<union> set (frames_of (floatBuf (vad_constructor short_opts (0::nat))
        @ concat [const_frame (1 / 2), const_frame 0])))
     (processAudio (voice_then_silence 1)
        ((vad_constructor short_opts 0)\<lparr>preEmphasis := 97 / 100\<rparr>)
        (concat [const_frame (1 / 2), const_frame 0]))
   \<and> built_from ({} \<union> set (frames_of (floatBuf (vad_constructor short_opts (0::nat))
        @ flush_pad (vad_constructor short_opts (0::nat)))) \<union> {replicate HOP_SIZE 0})
     (flush (voice_then_silence 1) ((vad_constructor short_opts 0)\<lparr>preEmphasis := 97 / 100\<rparr>))
   \<and> emitted (processAudio (voice_then_silence 1)
        ((vad_constructor short_opts 0)\<lparr>preEmphasis := 97 / 100\<rparr>)
        (concat [const_frame (1 / 2), const_frame 0]))
     = [SpeechStart, SpeechEnd (concat [const_frame (1 / 2), const_frame 0])]"
proof -
  have b: "built_from {} (vad_constructor short_opts (0::nat))"
    by (rule built_from_constructor)
  have l: "\<forall>f \<in> ({} :: frame set). length f = HOP_SIZE" by simp
  from raw_frame_provenance[OF b l, where chunk = "concat [const_frame (1 / 2), const_frame 0]"
      and tvp = "voice_then_silence 1" and a = "97 / 100"] short_run_preemph
  show ?thesis by blast
qed

section \<open>Flushing a partial frame\<close>

lemma HOP_SIZE_ge4: "4 \<le> HOP_SIZE"
  by (simp add: HOP_SIZE_def)

lemma length_flushed_frame [simp]: "length flushed_frame = HOP_SIZE"
  using HOP_SIZE_ge4 by (simp add: flushed_frame_def)

lemma last_flushed_frame [simp]: "last flushed_frame = 0"
proof -
  have "HOP_SIZE - 4 \<noteq> 0" by (simp add: HOP_SIZE_def)
  then show ?thesis by (simp add: flushed_frame_def)
qed

lemma count_list_replicate:
  "count_list (replicate n x) y = (if x = y then n else 0)"
  by (induction n) auto

text \<open>
  \<^verbatim>\<open>flush()\<close> hands the padded copy of the leftover to \<^verbatim>\<open>processAudio\<close> while \<^verbatim>\<open>_floatBuf\<close> still
  holds the leftover, so the frame cut there starts with the leftover twice.
\<close>

lemma flushed_frames:
  assumes "floatBuf v = [1 / 4, 1 / 4]"
  shows "frames_of (floatBuf v @ flush_pad v) = [flushed_frame]"
proof -
  have l: "0 < length (floatBuf v)" "length (floatBuf v) < HOP_SIZE"
    using assms by (simp_all add: HOP_SIZE_def)
  have "take HOP_SIZE ([1 / 4, 1 / 4] @ [1 / 4, 1 / 4] @ replicate (HOP_SIZE - 2) (0::real))
      = flushed_frame"
  proof -
    have "HOP_SIZE = Suc (Suc (Suc (Suc (HOP_SIZE - 4))))"
      using HOP_SIZE_ge4 by simp
    then have "take HOP_SIZE ([1 / 4, 1 / 4] @ [1 / 4, 1 / 4] @ replicate (HOP_SIZE - 2) (0::real))
        = [1 / 4, 1 / 4, 1 / 4, 1 / 4] @ take (HOP_SIZE - 4) (replicate (HOP_SIZE - 2) 0)"
      by (metis append_Cons append_Nil take_Suc_Cons)
    then show ?thesis
      by (simp add: flushed_frame_def min_def)
  qed
  then show ?thesis
    using flush_frame[OF l] assms by (simp add: numeral_2_eq_2)
qed

text \<open>The instance after the 258 samples: in speech, the whole frame in the open segment.\<close>

lemma leftover_after_processAudio:
  "processAudio (cls_const 0 1 1) (vad_constructor short_opts 0) leftover_input
   = \<lparr>positiveSpeechThreshold = 3 / 5, negativeSpeechThreshold = 2 / 5,
        minSpeechFrames = 1, minSilenceFrames = 1, probSmoothing = 1 / 5,
        energyGateDb = None, preEmphasis = 0, preSpeechPadMs = 0,
        postSpeechPadMs = 16, minSpeechMs = 0, module = 1, floatBuf = [1 / 4, 1 / 4],
        lastSampleForPreEmph = 1 / 2, pSmoothed = 4 / 5, frameIndex = 1,
        inSpeech = True, voiceRun = 1, silenceRun = 0, prePadFrames = 0,
        postPadFrames = 1, ring = [], ringMax = 0, currentSegment = [const_frame (1 / 2)],
        postPadCountdown = 0, emitted = [SpeechStart]\<rparr>"
proof -
  have two: "length [1 / 4, 1 / 4 :: real] < HOP_SIZE" by (simp add: HOP_SIZE_def)
  have f: "frames_of (concat [const_frame (1 / 2)] @ [1 / 4, 1 / 4]) = [const_frame (1 / 2)]"
    "remainder_of (concat [const_frame (1 / 2)] @ [1 / 4, 1 / 4]) = [1 / 4, 1 / 4]"
    using frames_of_concat[of "[const_frame (1 / 2)]" "[1 / 4, 1 / 4]"]
      frames_of_short[OF two] remainder_of_short[OF two]
    by simp_all
  have c: "floatBuf (vad_constructor short_opts (0::nat)) @ leftover_input
      = concat [const_frame (1 / 2)] @ [1 / 4, 1 / 4]"
    by (simp add: v0_short leftover_input_def)
  show ?thesis
    unfolding processAudio_frames c f unfolding v0_short
    by (simp add: processFrame_success eval_defs)
qed

text \<open>The run of \<^verbatim>\<open>flush()\<close> from there: one more voice frame, then the silent frame closes.\<close>

lemma flush_after_leftover:
  "emitted (flush (cls_const 0 1 1)
      (processAudio (cls_const 0 1 1) (vad_constructor short_opts 0) leftover_input))
   = [SpeechStart, SpeechEnd (const_frame (1 / 2) @ flushed_frame @ const_frame 0)]"
proof -
  let ?v1 = "\<lparr>positiveSpeechThreshold = 3 / 5, negativeSpeechThreshold = 2 / 5,
        minSpeechFrames = 1, minSilenceFrames = 1, probSmoothing = 1 / 5,
        energyGateDb = None, preEmphasis = 0, preSpeechPadMs = 0,
        postSpeechPadMs = 16, minSpeechMs = 0, module = 1::nat, floatBuf = [1 / 4, 1 / 4],
        lastSampleForPreEmph = 1 / 2, pSmoothed = 4 / 5, frameIndex = 1,
        inSpeech = True, voiceRun = 1, silenceRun = 0, prePadFrames = 0,
        postPadFrames = 1, ring = [], ringMax = 0, currentSegment = [const_frame (1 / 2)],
        postPadCountdown = 0, emitted = [SpeechStart]\<rparr>"
  have fr: "frames_of (floatBuf ?v1 @ flush_pad ?v1) = [flushed_frame]"
    by (rule flushed_frames) simp
  have pa: "(processAudio (cls_const 0 1 1) ?v1 (flush_pad ?v1))\<lparr>floatBuf := []\<rparr>
      = ?v1\<lparr>module := 2, floatBuf := [], lastSampleForPreEmph := 0, pSmoothed := 24 / 25,
            frameIndex := 2, voiceRun := 2,
            currentSegment := [const_frame (1 / 2), flushed_frame]\<rparr>"
    unfolding processAudio_frames fr
    by (simp add: processFrame_success eval_defs snd_convert_frame)
  let ?v2 = "?v1\<lparr>module := 2, floatBuf := [], lastSampleForPreEmph := 0, pSmoothed := 24 / 25,
            frameIndex := 2, voiceRun := 2,
            currentSegment := [const_frame (1 / 2), flushed_frame],
            postPadCountdown := 1\<rparr>"
  have fl: "flush (cls_const 0 1 1) ?v1 = flush_loop ?v2"
    using pa by (simp add: flush_def flush_pad_def Let_def)
  have fin: "finalizeWithFrame ?v2 (replicate HOP_SIZE 0) True
      = ?v2\<lparr>inSpeech := False, currentSegment := [], postPadCountdown := 0,
           emitted := [SpeechStart,
             SpeechEnd (const_frame (1 / 2) @ flushed_frame @ const_frame 0)]\<rparr>"
    by (simp add: finalizeWithFrame_def Let_def close_segment_frames const_frame_def)
  have "flush_loop ?v2 = flush_loop (finalizeWithFrame ?v2 (replicate HOP_SIZE 0) True)"
    by (rule flush_loop_step) simp
  also have "\<dots> = finalizeWithFrame ?v2 (replicate HOP_SIZE 0) True"
    unfolding fin by (rule flush_loop_stop) simp
  finally show ?thesis
    unfolding leftover_after_processAudio fl fin by simp
qed

lemma flushed_payload_count:
  "count_list (const_frame (1 / 2) @ flushed_frame @ const_frame 0) (1 / 4) = 4"
  by (simp add: const_frame_def flushed_frame_def count_list_replicate)

lemma raw_payload_count:
  "count_list (leftover_input @ replicate (HOP_SIZE - 2) 0 @ const_frame 0) (1 / 4) = 2"
  by (simp add: const_frame_def leftover_input_def count_list_replicate)

text \<open>
  Claim C9. The audio delivered to \<^verbatim>\<open>onSpeechEnd\<close> is to consist exactly of the raw input
  samples of the accumulated frames, plus zero samples added by the padding of \<^verbatim>\<open>flush\<close>,
  concatenated in order. The code does otherwise when \<^verbatim>\<open>flush()\<close> finds leftover samples.
  With speech starting at the first voice frame, one post-pad frame and a classifier that
  reports voice on every call, the 258 samples of \<open>leftover_input\<close> leave the two samples
  \<open>1/4\<close> in the buffer; \<^verbatim>\<open>flush()\<close> then emits the whole frame, the frame \<open>flushed_frame\<close> and the
  silent frame. The payload is not the input followed by zeros (which would be the whole
  frame, \<open>zero_padded_leftover\<close> and the silent frame): it holds the sample \<open>1/4\<close> four times,
  where the input holds it twice.
\<close>

theorem flush_duplicates_leftover:
  "floatBuf (processAudio (cls_const 0 1 1) (vad_constructor short_opts 0) leftover_input)
     = [1 / 4, 1 / 4]
   \<and> emitted (flush (cls_const 0 1 1)
        (processAudio (cls_const 0 1 1) (vad_constructor short_opts 0) leftover_input))
     = [SpeechStart, SpeechEnd (const_frame (1 / 2) @ flushed_frame @ const_frame 0)]
   \<and> const_frame (1 / 2) @ flushed_frame @ const_frame 0
     \<noteq> const_frame (1 / 2) @ zero_padded_leftover @ const_frame 0
   \<and> const_frame (1 / 2) @ zero_padded_leftover @ const_frame 0
     = leftover_input @ replicate (HOP_SIZE - 2) 0 @ const_frame 0
   \<and> count_list (const_frame (1 / 2) @ flushed_frame @ const_frame 0) (1 / 4) = 4
   \<and> count_list leftover_input (1 / 4) = 2"
proof -
  have e: "const_frame (1 / 2) @ zero_padded_leftover @ const_frame 0
      = leftover_input @ replicate (HOP_SIZE - 2) 0 @ const_frame 0"
    by (simp add: zero_padded_leftover_def leftover_input_def)
  have n: "const_frame (1 / 2) @ flushed_frame @ const_frame 0
      \<noteq> const_frame (1 / 2) @ zero_padded_leftover @ const_frame 0"
  proof
    assume "const_frame (1 / 2) @ flushed_frame @ const_frame 0
      = const_frame (1 / 2) @ zero_padded_leftover @ const_frame 0"
    then have "count_list (const_frame (1 / 2) @ flushed_frame @ const_frame 0) (1 / 4)
      = count_list (leftover_input @ replicate (HOP_SIZE - 2) 0 @ const_frame 0) (1 / 4)"
      unfolding e by (rule arg_cong)
    then show False
      unfolding flushed_payload_count raw_payload_count by simp
  qed
  have c: "count_list leftover_input (1 / 4) = 2"
    by (simp add: const_frame_def leftover_input_def count_list_replicate)
  have b: "floatBuf (processAudio (cls_const 0 1 1) (vad_constructor short_opts 0) leftover_input)
      = [1 / 4, 1 / 4]"
    unfolding leftover_after_processAudio by simp
  from b flush_after_leftover n e flushed_payload_count c show ?thesis
    by (intro conjI)
qed

end
